theory Spec2Isabelle
  imports Main "HOL-Library.Word" "HOL-Library.Multiset"
begin

section \<open>Data model of the InfluxDB span store\<close>

text \<open>
  Identifiers are Go \<^verbatim>\<open>uint64\<close> values. A Go \<^verbatim>\<open>string\<close> is a byte sequence, here a
  \<^typ>\<open>string\<close>; an annotation value (\<^verbatim>\<open>[]byte\<close>) is a byte sequence too, and
  \<^verbatim>\<open>string(ann.Value)\<close> is the identity on it.
\<close>

type_synonym ID = "64 word"

record SpanID =
  Trace :: ID
  Span :: ID
  Parent :: ID

record Annotation =
  Key :: string
  Value :: string

record Span =
  ID :: SpanID
  Annotations :: "Annotation list"

text \<open>
  A \<^verbatim>\<open>*Trace\<close>: the embedded span and the slice of sub-traces. The pointers of a
  tree built by this file are pairwise distinct (every node is allocated afresh from a
  row), so a node is identified by its position in the tree.
\<close>

datatype Trace = MkTrace (span: Span) (Sub: "Trace list")

text \<open>
  Go errors are values made by \<^verbatim>\<open>errors.New\<close> and \<^verbatim>\<open>fmt.Errorf\<close>, identified here by
  their message; a run-time panic (nil dereference, index out of range) ends the call and
  is the second constructor.
\<close>

datatype error = Error string | Panic string

text \<open>
  A value of type \<^verbatim>\<open>interface{}\<close> as the functions of this file inspect it: nil, a
  string, or a value of another dynamic type (with the name \<^verbatim>\<open>reflect.TypeOf\<close> prints).
\<close>

datatype iface = INil | IString string | IOther string

text \<open>\<^verbatim>\<open>pointFields\<close>, a \<^verbatim>\<open>map[string]interface{}\<close>.\<close>

type_synonym pointFields = "string \<rightharpoonup> iface"

text \<open>Indexing a Go map: a missing key gives the zero value, the nil interface.\<close>

definition index :: "pointFields \<Rightarrow> string \<Rightarrow> iface" where
  "index m k = (case m k of None \<Rightarrow> INil | Some v \<Rightarrow> v)"

text \<open>
  An instant (\<^verbatim>\<open>time.Time\<close>), counted in nanoseconds from the zero value of the type.
\<close>

type_synonym time = int

record Point =
  Measurement :: string
  Tags :: "string \<rightharpoonup> string"
  Time :: time
  Fields :: pointFields

text \<open>
  A result row of a query (\<^verbatim>\<open>influxDBModels.Row\<close>): one series. Its field
  \<^verbatim>\<open>Tags\<close> is \<open>RowTags\<close> here, next to the \<open>Tags\<close> of a point.
\<close>

record Row =
  RowTags :: "string \<rightharpoonup> string"
  Columns :: "string list"
  Values :: "iface list list"

definition schemasFieldName :: string where
  "schemasFieldName = ''schemas''"

text \<open>The separator is the one-character string \<^verbatim>\<open>","\<close>.\<close>

definition schemasFieldSeparator :: char where
  "schemasFieldSeparator = CHR '',''"

definition spanMeasurementName :: string where
  "spanMeasurementName = ''spans''"

section \<open>The string functions of the Go library that the store uses\<close>

text \<open>
  \<^verbatim>\<open>strings.Split(s, sep)\<close> for a separator of one byte: the pieces between the
  separators; the empty string gives one empty piece.
\<close>

fun Split :: "string \<Rightarrow> char \<Rightarrow> string list" where
  "Split [] sep = [[]]"
| "Split (c # cs) sep =
     (if c = sep then [] # Split cs sep
      else (case Split cs sep of
              [] \<Rightarrow> [[c]]
            | w # ws \<Rightarrow> (c # w) # ws))"

text \<open>\<^verbatim>\<open>strings.Join(elems, sep)\<close> for a separator of one byte.\<close>

fun Join :: "string list \<Rightarrow> char \<Rightarrow> string" where
  "Join [] sep = []"
| "Join [x] sep = x"
| "Join (x # y # ys) sep = x @ sep # Join (y # ys) sep"

text \<open>\<^verbatim>\<open>strings.HasPrefix(s, prefix)\<close>.\<close>

definition HasPrefix :: "string \<Rightarrow> string \<Rightarrow> bool" where
  "HasPrefix s prefix = (take (length prefix) s = prefix)"

section \<open>Schema tracking\<close>

text \<open>
  The constant \<^verbatim>\<open>schemaPrefix\<close> is declared in another file of the package; the
  functions take it as their first argument.
\<close>

text \<open>\<^verbatim>\<open>schemaExists\<close>: is \<open>schema\<close> one of \<open>schemas\<close>.\<close>

fun schemaExists :: "string \<Rightarrow> string list \<Rightarrow> bool" where
  "schemaExists schema [] = False"
| "schemaExists schema (s # schemas) =
     (if schema = s then True else schemaExists schema schemas)"

text \<open>
  \<^verbatim>\<open>findSchemasAnnotation\<close>: the first annotation whose key is the manifest's field
  name; \<open>None\<close> is the nil pointer.
\<close>

fun findSchemasAnnotation :: "Annotation list \<Rightarrow> Annotation option" where
  "findSchemasAnnotation [] = None"
| "findSchemasAnnotation (a # anns) =
     (if Key a = schemasFieldName then Some a else findSchemasAnnotation anns)"

text \<open>The loop of \<^verbatim>\<open>filterSchemas\<close> over \<open>anns\<close>, appending to \<open>annotations\<close>.\<close>

fun filterSchemas_loop ::
  "string \<Rightarrow> string list \<Rightarrow> Annotation list \<Rightarrow> Annotation list \<Rightarrow> Annotation list" where
  "filterSchemas_loop schemaPrefix schemas [] annotations = annotations"
| "filterSchemas_loop schemaPrefix schemas (a # anns) annotations =
     (if HasPrefix (Key a) schemaPrefix then
        (let schema = drop (length schemaPrefix) (Key a) in
         if schemaExists schema schemas
         then filterSchemas_loop schemaPrefix schemas anns (annotations @ [a])
         else filterSchemas_loop schemaPrefix schemas anns annotations)
      else filterSchemas_loop schemaPrefix schemas anns (annotations @ [a]))"

text \<open>
  \<^verbatim>\<open>filterSchemas\<close>. \<^verbatim>\<open>schemasAnn.Value\<close> is read through the pointer that
  \<^verbatim>\<open>findSchemasAnnotation\<close> returned, with no nil check: a nil pointer panics.
\<close>

definition filterSchemas :: "string \<Rightarrow> Annotation list \<Rightarrow> error + Annotation list" where
  "filterSchemas schemaPrefix anns =
     (case findSchemasAnnotation anns of
        None \<Rightarrow> Inl (Panic ''invalid memory address or nil pointer dereference'')
      | Some schemasAnn \<Rightarrow>
          (let schemas = Split (Value schemasAnn) schemasFieldSeparator
           in Inr (filterSchemas_loop schemaPrefix schemas anns [])))"

text \<open>The loop of \<^verbatim>\<open>schemasFromAnnotations\<close>, appending to \<open>schemas\<close>.\<close>

fun schemasFromAnnotations_loop ::
  "string \<Rightarrow> Annotation list \<Rightarrow> string list \<Rightarrow> string list" where
  "schemasFromAnnotations_loop schemaPrefix [] schemas = schemas"
| "schemasFromAnnotations_loop schemaPrefix (ann # anns) schemas =
     (if HasPrefix (Key ann) schemaPrefix
      then schemasFromAnnotations_loop schemaPrefix anns
             (schemas @ [drop (length schemaPrefix) (Key ann)])
      else schemasFromAnnotations_loop schemaPrefix anns schemas)"

definition schemasFromAnnotations :: "string \<Rightarrow> Annotation list \<Rightarrow> string" where
  "schemasFromAnnotations schemaPrefix anns =
     Join (schemasFromAnnotations_loop schemaPrefix anns []) schemasFieldSeparator"

text \<open>
  The first loop of \<^verbatim>\<open>mergeSchemasField\<close>: the string fields are collected, a nil
  field is skipped, a field of another type is an error.
\<close>

fun mergeSchemasField_strFields :: "iface list \<Rightarrow> string list \<Rightarrow> error + string list" where
  "mergeSchemasField_strFields [] strFields = Inr strFields"
| "mergeSchemasField_strFields (field # flds) strFields =
     (case field of
        IString s \<Rightarrow> mergeSchemasField_strFields flds (strFields @ [s])
      | INil \<Rightarrow> mergeSchemasField_strFields flds strFields
      | IOther ty \<Rightarrow> Inl (Error (''unexpected schema field type: '' @ ty)))"

text \<open>
  The cache \<^verbatim>\<open>schemas\<close> is a \<^verbatim>\<open>map[string]string\<close> that maps every key to itself;
  it is kept as the list of its keys, in the order they were added. The inner loop
  adds every piece that is not yet a key.
\<close>

fun mergeSchemasField_add :: "string list \<Rightarrow> string list \<Rightarrow> string list" where
  "mergeSchemasField_add [] schemas = schemas"
| "mergeSchemasField_add (s # sf) schemas =
     (if s \<in> set schemas then mergeSchemasField_add sf schemas
      else mergeSchemasField_add sf (schemas @ [s]))"

fun mergeSchemasField_schemas :: "string list \<Rightarrow> string list \<Rightarrow> string list" where
  "mergeSchemasField_schemas [] schemas = schemas"
| "mergeSchemasField_schemas (strField # strFields) schemas =
     (if strField = [] then mergeSchemasField_schemas strFields schemas
      else mergeSchemasField_schemas strFields
             (mergeSchemasField_add (Split strField schemasFieldSeparator) schemas))"

text \<open>
  \<^verbatim>\<open>mergeSchemasField\<close>. Go does not specify the order in which \<^verbatim>\<open>range\<close> visits the
  keys of a map: \<open>rangeKeys\<close> is that order, a function from the keys to the sequence
  in which the loop sees them.
\<close>

definition mergeSchemasField ::
  "(string list \<Rightarrow> string list) \<Rightarrow> iface \<Rightarrow> iface \<Rightarrow> error + string" where
  "mergeSchemasField rangeKeys new old =
     (case mergeSchemasField_strFields [new, old] [] of
        Inl err \<Rightarrow> Inl err
      | Inr strFields \<Rightarrow>
          (let schemas = mergeSchemasField_schemas strFields [];
               result = rangeKeys schemas
           in Inr (Join result schemasFieldSeparator)))"

text \<open>
  The elements of a manifest, as the claims about the merge speak of them and as
  \<^verbatim>\<open>mergeSchemasField\<close> reads its inputs: the pieces of a string between the
  separators, where an absent value and the empty string have no elements.
\<close>

definition manifestElements :: "iface \<Rightarrow> string set" where
  "manifestElements field =
     (case field of
        IString s \<Rightarrow> (if s = [] then {} else set (Split s schemasFieldSeparator))
      | INil \<Rightarrow> {}
      | IOther ty \<Rightarrow> {})"

section \<open>Merging a new submission into a stored record\<close>

text \<open>
  \<^verbatim>\<open>withoutEmptyFields\<close> and \<^verbatim>\<open>extendFields\<close> visit every entry of a map once and
  treat it on its own, so the order of \<^verbatim>\<open>range\<close> does not show: they are written
  key by key.
\<close>

definition withoutEmptyFields :: "pointFields \<Rightarrow> pointFields" where
  "withoutEmptyFields pf = (\<lambda>k.
     (case pf k of
        None \<Rightarrow> None
      | Some v \<Rightarrow>
          (case v of
             IString s \<Rightarrow> (if s = [] then None else Some v)
           | INil \<Rightarrow> None
           | IOther ty \<Rightarrow> Some v)))"

definition extendFields :: "pointFields \<Rightarrow> pointFields \<Rightarrow> pointFields" where
  "extendFields dst src = (\<lambda>k.
     (case src k of
        None \<Rightarrow> dst k
      | Some v \<Rightarrow> (if dst k \<noteq> None then Some v else dst k)))"

text \<open>
  The loop of \<^verbatim>\<open>findSpanPoint\<close> over the first row of values, at index \<open>i\<close>.
  \<^verbatim>\<open>r.Columns[i]\<close> panics when the row has fewer columns than values.
  \<^verbatim>\<open>time.Parse\<close> is the parameter \<open>parseTime\<close>.
\<close>

fun findSpanPoint_loop ::
  "(string \<Rightarrow> error + time) \<Rightarrow> string list \<Rightarrow> nat \<Rightarrow> iface list \<Rightarrow> Point \<Rightarrow> error + Point" where
  "findSpanPoint_loop parseTime columns i [] p = Inr p"
| "findSpanPoint_loop parseTime columns i (field # flds) p =
     (if i < length columns then
        (let key = columns ! i in
         case field of
           IString s \<Rightarrow>
             (if key = ''time'' then
                (case parseTime s of
                   Inl err \<Rightarrow> Inl err
                 | Inr t \<Rightarrow>
                     findSpanPoint_loop parseTime columns (Suc i) flds
                       (p\<lparr>Time := t, Fields := (Fields p)(key \<mapsto> IString s)\<rparr>))
              else findSpanPoint_loop parseTime columns (Suc i) flds
                     (p\<lparr>Fields := (Fields p)(key \<mapsto> IString s)\<rparr>))
         | INil \<Rightarrow> findSpanPoint_loop parseTime columns (Suc i) flds p
         | IOther ty \<Rightarrow> Inl (Error (''unexpected field type: '' @ ty)))
      else Inl (Panic ''index out of range''))"

text \<open>
  \<^verbatim>\<open>findSpanPoint\<close>. \<open>result\<close> is what \<^verbatim>\<open>executeOneQuery\<close> gave for the exact
  lookup of the span: an error, or the series of the result. \<open>Inr None\<close> is the
  return of a nil point with a nil error.
\<close>

definition findSpanPoint ::
  "(string \<Rightarrow> error + time) \<Rightarrow> error + Row list \<Rightarrow> error + Point option" where
  "findSpanPoint parseTime result =
     (case result of
        Inl err \<Rightarrow> Inl err
      | Inr series \<Rightarrow>
          (if length series = 0 then Inr None
           else if length series > 1 then Inl (Error ''unexpected multiple series'')
           else
             (let r = series ! 0 in
              if length (Values r) = 0 then Inl (Error ''unexpected empty series'')
              else
                (case findSpanPoint_loop parseTime (Columns r) 0 (Values r ! 0)
                        \<lparr>Measurement = [], Tags = Map.empty, Time = 0, Fields = Map.empty\<rparr> of
                   Inl err \<Rightarrow> Inl err
                 | Inr p \<Rightarrow> Inr (Some p)))))"

text \<open>The loop of \<^verbatim>\<open>Collect\<close> that sets one field for every annotation.\<close>

fun Collect_fields :: "Annotation list \<Rightarrow> pointFields \<Rightarrow> pointFields" where
  "Collect_fields [] flds = flds"
| "Collect_fields (ann # anns) flds =
     Collect_fields anns (flds(Key ann \<mapsto> IString (Value ann)))"

text \<open>
  \<^verbatim>\<open>InfluxDBStore.Collect\<close>. The parameters stand for what the call gets from
  outside: \<open>idString\<close> is \<^verbatim>\<open>ID.String\<close> (declared in another file), \<open>result\<close> the
  outcome of the lookup query for \<open>spanID\<close>, \<open>now\<close> the value of
  \<^verbatim>\<open>time.Now().UTC()\<close>, and \<open>write\<close> the outcome of \<^verbatim>\<open>in.con.Write\<close> on the batch of
  the one point (\<open>None\<close> is a nil error). The result is the point handed to
  \<^verbatim>\<open>Write\<close>, when the call gets that far, and the error returned.
\<close>

definition InfluxDBStore_Collect ::
  "string \<Rightarrow> (ID \<Rightarrow> string) \<Rightarrow> (string \<Rightarrow> error + time) \<Rightarrow> (string list \<Rightarrow> string list) \<Rightarrow>
   error + Row list \<Rightarrow> time \<Rightarrow> (Point \<Rightarrow> error option) \<Rightarrow>
   SpanID \<Rightarrow> Annotation list \<Rightarrow> Point option \<times> error option" where
  "InfluxDBStore_Collect schemaPrefix idString parseTime rangeKeys result now write spanID anns =
     (case findSpanPoint parseTime result of
        Inl err \<Rightarrow> (None, Some err)
      | Inr found \<Rightarrow>
          (let tags = [''trace_id'' \<mapsto> idString (Trace spanID),
                       ''span_id'' \<mapsto> idString (Span spanID),
                       ''parent_id'' \<mapsto> idString (Parent spanID)];
               flds = Collect_fields anns Map.empty
           in
           case
             (case found of
                Some p \<Rightarrow>
                  (let flds' = extendFields flds (withoutEmptyFields (Fields p)) in
                   case mergeSchemasField rangeKeys
                          (IString (schemasFromAnnotations schemaPrefix anns))
                          (index (Fields p) schemasFieldName) of
                     Inl err \<Rightarrow> Inl err
                   | Inr schemas \<Rightarrow>
                       Inr (p\<lparr>Measurement := spanMeasurementName, Tags := tags,
                               Fields := flds'(schemasFieldName \<mapsto> IString schemas)\<rparr>))
              | None \<Rightarrow>
                  Inr \<lparr>Measurement = spanMeasurementName, Tags = tags, Time = now,
                       Fields = flds(schemasFieldName \<mapsto>
                                  IString (schemasFromAnnotations schemaPrefix anns))\<rparr>)
           of
             Inl err \<Rightarrow> (None, Some err)
           | Inr p \<Rightarrow> (Some p, write p)))"

section \<open>Assembling the trace tree\<close>

text \<open>
  \<^verbatim>\<open>findTraceParent\<close> returns a pointer to a node of the tree under \<open>root\<close>. The
  node is given here by its path from the root: the indices into the \<^verbatim>\<open>Sub\<close> slices
  on the way down; \<open>None\<close> is the nil pointer. \<open>walkToParent_subs\<close> is the
  \<^verbatim>\<open>for\<close> loop of the walk, at index \<open>i\<close> of the slice.
\<close>

fun walkToParent :: "Trace \<Rightarrow> Trace \<Rightarrow> nat list option"
  and walkToParent_subs :: "Trace list \<Rightarrow> nat \<Rightarrow> Trace \<Rightarrow> nat list option" where
  "walkToParent (MkTrace s subs) child =
     (if Span (ID s) = Parent (ID (span child)) then Some []
      else walkToParent_subs subs 0 child)"
| "walkToParent_subs [] i child = None"
| "walkToParent_subs (sub # subs) i child =
     (if Span (ID (span sub)) = Parent (ID (span child)) then Some [i]
      else (case walkToParent sub child of
              Some r \<Rightarrow> Some (i # r)
            | None \<Rightarrow> walkToParent_subs subs (Suc i) child))"

definition findTraceParent :: "Trace \<Rightarrow> Trace \<Rightarrow> nat list option" where
  "findTraceParent root child = walkToParent root child"

text \<open>
  The assignment to \<^verbatim>\<open>t.Sub\<close> in \<^verbatim>\<open>addFn\<close>, through the pointer \<open>t\<close>: the tree
  in which the node at the path has \<open>child\<close> as its new last sub-trace.
\<close>

fun appendSub :: "Trace \<Rightarrow> nat list \<Rightarrow> Trace \<Rightarrow> Trace"
  and appendSub_at :: "Trace list \<Rightarrow> nat \<Rightarrow> nat list \<Rightarrow> Trace \<Rightarrow> Trace list" where
  "appendSub (MkTrace s subs) [] child =
     (if subs = [] then MkTrace s [child] else MkTrace s (subs @ [child]))"
| "appendSub (MkTrace s subs) (i # t) child = MkTrace s (appendSub_at subs i t child)"
| "appendSub_at [] i t child = []"
| "appendSub_at (sub # subs) 0 t child = appendSub sub t child # subs"
| "appendSub_at (sub # subs) (Suc i) t child = sub # appendSub_at subs i t child"

text \<open>
  \<^verbatim>\<open>addFn\<close>: one pass over \<open>children\<close> from the last index down to 0. The first
  argument is \<open>i + 1\<close>; the closure works on the variables \<open>root\<close> (through the
  pointers) and \<open>children\<close> of \<^verbatim>\<open>addChildren\<close>, which are returned. The index is
  in range at every step: a pass starts at the length, and removing the element at
  \<open>i\<close> leaves at least \<open>i\<close> elements.
\<close>

fun addFn_loop :: "nat \<Rightarrow> Trace \<Rightarrow> Trace list \<Rightarrow> Trace \<times> Trace list" where
  "addFn_loop 0 root children = (root, children)"
| "addFn_loop (Suc i) root children =
     (let child = children ! i in
      case findTraceParent root child of
        Some t \<Rightarrow>
          addFn_loop i (appendSub root t child) (take i children @ drop (Suc i) children)
      | None \<Rightarrow> addFn_loop i root children)"

definition addFn :: "Trace \<Rightarrow> Trace list \<Rightarrow> Trace \<times> Trace list" where
  "addFn root children = addFn_loop (length children) root children"

definition errMaxRetries :: error where
  "errMaxRetries = Error ''maximum number of retries''"

text \<open>
  The loop of \<^verbatim>\<open>addChildren\<close>. \<open>try\<close> and \<open>retries\<close> are Go \<^verbatim>\<open>int\<close>s, 64 bits
  wide, and \<^verbatim>\<open>try++\<close> wraps around: the distance from \<open>try\<close> to \<open>retries\<close>
  decreases with every pass, for any two values.
\<close>

function addChildren_loop :: "Trace \<Rightarrow> Trace list \<Rightarrow> 64 word \<Rightarrow> 64 word \<Rightarrow> error + Trace" where
  "addChildren_loop root children try retries =
     (if length children = 0 then Inr root
      else if try = retries then Inl errMaxRetries
      else (case addFn root children of
              (root', children') \<Rightarrow> addChildren_loop root' children' (try + 1) retries))"
  by pat_completeness auto
termination
  apply (relation "measure (\<lambda>(root, children, try, retries). unat (retries - try))")
   apply simp
  subgoal for root children n retries
  proof -
    assume "n \<noteq> retries"
    then have nz: "retries - n \<noteq> 0"
      by simp
    have e: "retries - (n + 1) = (retries - n) - 1"
      by simp
    have "unat ((retries - n) - 1) = unat (retries - n) - 1"
      using nz by (rule unat_minus_one)
    moreover have "unat (retries - n) \<noteq> 0"
      using nz by (simp add: unat_eq_zero)
    ultimately have "unat (retries - (n + 1)) < unat (retries - n)"
      unfolding e by linarith
    then show ?thesis
      by simp
  qed
  done

text \<open>
  \<^verbatim>\<open>addChildren\<close>. The Go function changes the tree under \<open>root\<close> in place and
  returns the error alone; the tree is the result here when the error is nil.
\<close>

definition addChildren :: "Trace \<Rightarrow> Trace list \<Rightarrow> error + Trace" where
  "addChildren root children =
     addChildren_loop root children 0 (of_nat (length children))"

section \<open>Reading spans and traces back\<close>

text \<open>
  Modelled from the spec: \<^verbatim>\<open>SpanID.IsRoot\<close> is declared in another file of the
  package; a span is a root of its trace iff its parent is the zero identifier.
\<close>

definition IsRoot :: "SpanID \<Rightarrow> bool" where
  "IsRoot spanID = (Parent spanID = 0)"

text \<open>
  The loop of \<^verbatim>\<open>annotationsFromRow\<close> at index \<open>i\<close>: a string field gives its bytes
  as the value, a nil field the nil value, a field of another type is an error.
\<close>

fun annotationsFromRow_loop ::
  "string list \<Rightarrow> nat \<Rightarrow> iface list \<Rightarrow> Annotation list \<Rightarrow> error + Annotation list" where
  "annotationsFromRow_loop columns i [] annotations = Inr annotations"
| "annotationsFromRow_loop columns i (field # flds) annotations =
     (if i < length columns then
        (let key = columns ! i in
         case field of
           IString s \<Rightarrow>
             annotationsFromRow_loop columns (Suc i) flds
               (annotations @ [\<lparr>Key = key, Value = s\<rparr>])
         | INil \<Rightarrow>
             annotationsFromRow_loop columns (Suc i) flds
               (annotations @ [\<lparr>Key = key, Value = []\<rparr>])
         | IOther ty \<Rightarrow> Inl (Error (''unexpected field type: '' @ ty)))
      else Inl (Panic ''index out of range''))"

definition annotationsFromRow :: "Row \<Rightarrow> error + Annotation list" where
  "annotationsFromRow r =
     (let flds = (if length (Values r) = 1 then Values r ! 0 else []) in
      if length (Values r) > 1 then Inl (Error ''unexpected multiple row values'')
      else annotationsFromRow_loop (Columns r) 0 flds [])"

text \<open>Indexing the tags of a row: a missing key gives the empty string.\<close>

definition tag :: "Row \<Rightarrow> string \<Rightarrow> string" where
  "tag r k = (case RowTags r k of None \<Rightarrow> [] | Some v \<Rightarrow> v)"

text \<open>
  \<^verbatim>\<open>newSpanFromRow\<close>. \<^verbatim>\<open>ParseID\<close> and the conversion of annotations through the
  registered events (\<^verbatim>\<open>UnmarshalEvents\<close>, \<^verbatim>\<open>MarshalEvent\<close>) are declared in other
  files of the package; they are the parameters \<open>ParseID\<close> and
  \<open>annotationsFromEvents\<close>.
\<close>

definition newSpanFromRow ::
  "string \<Rightarrow> (string \<Rightarrow> error + ID) \<Rightarrow> (Annotation list \<Rightarrow> error + Annotation list) \<Rightarrow>
   Row \<Rightarrow> error + Span" where
  "newSpanFromRow schemaPrefix ParseID annotationsFromEvents r =
     (case ParseID (tag r ''trace_id'') of
        Inl err \<Rightarrow> Inl err
      | Inr traceID \<Rightarrow>
     (case ParseID (tag r ''span_id'') of
        Inl err \<Rightarrow> Inl err
      | Inr spanID \<Rightarrow>
     (case ParseID (tag r ''parent_id'') of
        Inl err \<Rightarrow> Inl err
      | Inr parentID \<Rightarrow>
     (case annotationsFromRow r of
        Inl err \<Rightarrow> Inl err
      | Inr annotations \<Rightarrow>
     (case filterSchemas schemaPrefix annotations of
        Inl err \<Rightarrow> Inl err
      | Inr filtered \<Rightarrow>
     (case annotationsFromEvents filtered of
        Inl err \<Rightarrow> Inl err
      | Inr anns \<Rightarrow>
          Inr \<lparr>ID = \<lparr>Trace = traceID, Span = spanID, Parent = parentID\<rparr>,
               Annotations = anns\<rparr>))))))"

text \<open>
  The loop of \<^verbatim>\<open>Trace\<close> over the series; \<open>decode\<close> is \<^verbatim>\<open>newSpanFromRow\<close> with
  its parameters. The state is \<open>trace\<close>, \<open>rootSpanSet\<close> and \<open>children\<close>.
\<close>

fun Trace_loop ::
  "(Row \<Rightarrow> error + Span) \<Rightarrow> Row list \<Rightarrow> Trace \<Rightarrow> bool \<Rightarrow> Trace list \<Rightarrow>
   error + Trace \<times> bool \<times> Trace list" where
  "Trace_loop decode [] trace rootSpanSet children = Inr (trace, rootSpanSet, children)"
| "Trace_loop decode (s # series) trace rootSpanSet children =
     (case decode s of
        Inl err \<Rightarrow> Inl err
      | Inr sp \<Rightarrow>
          (if IsRoot (ID sp) \<and> rootSpanSet then Inl (Error ''unexpected multiple root spans'')
           else
             (let isRootSpan = (IsRoot (ID sp) \<and> \<not> rootSpanSet) in
              if isRootSpan
              then Trace_loop decode series (MkTrace sp (Sub trace)) True children
              else Trace_loop decode series trace rootSpanSet (children @ [MkTrace sp []]))))"

text \<open>
  \<^verbatim>\<open>InfluxDBStore.Trace\<close>.
  \<open>result\<close> is the outcome of the query for all spans of the trace identifier.
\<close>

definition InfluxDBStore_Trace ::
  "string \<Rightarrow> (string \<Rightarrow> error + ID) \<Rightarrow> (Annotation list \<Rightarrow> error + Annotation list) \<Rightarrow>
   error + Row list \<Rightarrow> error + Trace" where
  "InfluxDBStore_Trace schemaPrefix ParseID annotationsFromEvents result =
     (case result of
        Inl err \<Rightarrow> Inl err
      | Inr series \<Rightarrow>
          (if length series = 0 then Inl (Error ''trace not found'')
           else
             (case Trace_loop (newSpanFromRow schemaPrefix ParseID annotationsFromEvents) series
                     (MkTrace \<lparr>ID = \<lparr>Trace = 0, Span = 0, Parent = 0\<rparr>, Annotations = []\<rparr> [])
                     False [] of
                Inl err \<Rightarrow> Inl err
              | Inr (trace, rootSpanSet, children) \<Rightarrow>
                  (case addChildren trace children of
                     Inl err \<Rightarrow> Inl err
                   | Inr trace' \<Rightarrow> Inr trace'))))"

text \<open>
  \<^verbatim>\<open>tracesCache\<close>, a \<^verbatim>\<open>map[ID]*Trace\<close> that two loops range over, is the list of
  its entries in the order they were added; a key is added once. The first loop of
  \<^verbatim>\<open>Traces\<close> fills it from the root spans.
\<close>

fun Traces_roots ::
  "(Row \<Rightarrow> error + Span) \<Rightarrow> Row list \<Rightarrow> (ID \<times> Trace) list \<Rightarrow> error + (ID \<times> Trace) list" where
  "Traces_roots decode [] tracesCache = Inr tracesCache"
| "Traces_roots decode (s # series) tracesCache =
     (case decode s of
        Inl err \<Rightarrow> Inl err
      | Inr sp \<Rightarrow>
          (let present = (map_of tracesCache (Trace (ID sp)) \<noteq> None) in
           if \<not> present
           then Traces_roots decode series (tracesCache @ [(Trace (ID sp), MkTrace sp [])])
           else Inl (Error ''duplicated root span'')))"

text \<open>The loop over the children spans, which fills the map \<open>children\<close>.\<close>

fun Traces_children ::
  "(Row \<Rightarrow> error + Span) \<Rightarrow> (ID \<times> Trace) list \<Rightarrow> Row list \<Rightarrow> (ID \<rightharpoonup> Trace list) \<Rightarrow>
   error + (ID \<rightharpoonup> Trace list)" where
  "Traces_children decode tracesCache [] children = Inr children"
| "Traces_children decode tracesCache (s # series) children =
     (case decode s of
        Inl err \<Rightarrow> Inl err
      | Inr sp \<Rightarrow>
          (case map_of tracesCache (Trace (ID sp)) of
             None \<Rightarrow> Inl (Error ''parent not found'')
           | Some trace \<Rightarrow>
               (let child = MkTrace sp [] in
                case children (Trace (ID (span trace))) of
                  None \<Rightarrow>
                    Traces_children decode tracesCache series
                      (children(Trace (ID (span trace)) \<mapsto> [child]))
                | Some t \<Rightarrow>
                    Traces_children decode tracesCache series
                      (children(Trace (ID (span trace)) \<mapsto> t @ [child])))))"

text \<open>The last loop: the children of every cached trace are attached under it.\<close>

fun Traces_attach ::
  "(ID \<rightharpoonup> Trace list) \<Rightarrow> (ID \<times> Trace) list \<Rightarrow> Trace list \<Rightarrow> error + Trace list" where
  "Traces_attach children [] traces = Inr traces"
| "Traces_attach children ((k, trace) # cache) traces =
     (case children (Trace (ID (span trace))) of
        Some traceChildren \<Rightarrow>
          (case addChildren trace traceChildren of
             Inl err \<Rightarrow> Inl err
           | Inr trace' \<Rightarrow> Traces_attach children cache (traces @ [trace']))
      | None \<Rightarrow> Traces_attach children cache (traces @ [trace]))"

text \<open>
  \<^verbatim>\<open>InfluxDBStore.Traces\<close>. \<open>rootSpansResult\<close> and \<open>childrenSpansResult\<close> are the
  outcomes of the two queries; \<open>rangeCache\<close> is the order in which \<^verbatim>\<open>range\<close> visits
  the cache. The result is the pair that Go returns: the slice (\<open>None\<close> is the nil
  slice) and the error (\<open>None\<close> is the nil error).
\<close>

definition InfluxDBStore_Traces ::
  "string \<Rightarrow> (string \<Rightarrow> error + ID) \<Rightarrow> (Annotation list \<Rightarrow> error + Annotation list) \<Rightarrow>
   ((ID \<times> Trace) list \<Rightarrow> (ID \<times> Trace) list) \<Rightarrow>
   error + Row list \<Rightarrow> error + Row list \<Rightarrow> Trace list option \<times> error option" where
  "InfluxDBStore_Traces schemaPrefix ParseID annotationsFromEvents rangeCache
     rootSpansResult childrenSpansResult =
     (let traces = [];
          decode = newSpanFromRow schemaPrefix ParseID annotationsFromEvents
      in
      case rootSpansResult of
        Inl err \<Rightarrow> (None, Some err)
      | Inr rootSeries \<Rightarrow>
          (if length rootSeries = 0 then (Some traces, None)
           else
             (case Traces_roots decode rootSeries [] of
                Inl err \<Rightarrow> (None, Some err)
              | Inr tracesCache \<Rightarrow>
                  (case childrenSpansResult of
                     Inl err \<Rightarrow> (None, Some err)
                   | Inr childrenSeries \<Rightarrow>
                       (case Traces_children decode tracesCache childrenSeries Map.empty of
                          Inl err \<Rightarrow> (None, Some err)
                        | Inr children \<Rightarrow>
                            (case Traces_attach children (rangeCache tracesCache) traces of
                               Inl err \<Rightarrow> (None, Some err)
                             | Inr traces' \<Rightarrow> (Some traces', None)))))))"

section \<open>What the claims about the tree speak of\<close>

text \<open>The span identifiers of the nodes of a tree.\<close>

fun ids :: "Trace \<Rightarrow> ID set" where
  "ids (MkTrace s subs) = insert (Span (ID s)) (\<Union>t\<in>set subs. ids t)"

text \<open>
  The identifiers that can be reached from \<open>root\<close>: those of the nodes of the tree
  under \<open>root\<close>, and those of the nodes of a child whose parent identifier can be
  reached. A child whose parent identifier is reached has a chain of parents that
  ends in the tree; a child on a cycle of parents, or with an ancestor that is nowhere,
  has none.
\<close>

inductive_set reach :: "Trace \<Rightarrow> Trace list \<Rightarrow> ID set"
  for root :: Trace and children :: "Trace list" where
  in_root: "i \<in> ids root \<Longrightarrow> i \<in> reach root children"
| in_child: "c \<in> set children \<Longrightarrow> Parent (ID (span c)) \<in> reach root children \<Longrightarrow>
             i \<in> ids c \<Longrightarrow> i \<in> reach root children"

text \<open>The children form a tree that can be attached under \<open>root\<close>.\<close>

definition attachable :: "Trace \<Rightarrow> Trace list \<Rightarrow> bool" where
  "attachable root children =
     (\<forall>c\<in>set children. Parent (ID (span c)) \<in> reach root children)"

text \<open>The node that a path leads to, if the path is one of the tree.\<close>

fun nodeAt :: "Trace \<Rightarrow> nat list \<Rightarrow> Trace option"
  and nodeAt_sub :: "Trace list \<Rightarrow> nat \<Rightarrow> nat list \<Rightarrow> Trace option" where
  "nodeAt t [] = Some t"
| "nodeAt (MkTrace s subs) (i # p) = nodeAt_sub subs i p"
| "nodeAt_sub [] i p = None"
| "nodeAt_sub (sub # subs) 0 p = nodeAt sub p"
| "nodeAt_sub (sub # subs) (Suc i) p = nodeAt_sub subs i p"



section \<open>Splitting and joining\<close>

lemma Split_nonempty: "Split s c \<noteq> []"
  by (induction s) (auto split: list.splits)

lemma Split_no_sep: "x \<in> set (Split s c) \<Longrightarrow> c \<notin> set x"
proof (induction s arbitrary: x)
  case Nil
  then show ?case by simp
next
  case (Cons a s)
  then show ?case
    by (cases "Split s c") (auto split: if_splits simp: Split_nonempty)
qed

lemma Split_no_sep_string: "c \<notin> set x \<Longrightarrow> Split x c = [x]"
  by (induction x) auto

lemma Split_append_sep:
  "c \<notin> set x \<Longrightarrow> Split (x @ c # s) c = x # Split s c"
  by (induction x) (auto simp: Split_nonempty split: list.splits)

text \<open>Splitting a join gives the joined pieces back, when none holds the separator.\<close>

lemma Split_Join:
  "xs \<noteq> [] \<Longrightarrow> \<forall>x\<in>set xs. c \<notin> set x \<Longrightarrow> Split (Join xs c) c = xs"
proof (induction xs c rule: Join.induct)
  case (1 sep)
  then show ?case by simp
next
  case (2 x sep)
  then show ?case by (simp add: Split_no_sep_string)
next
  case (3 x y ys sep)
  then show ?case by (simp add: Split_append_sep)
qed

lemma Join_empty_iff: "(Join xs c = []) = (xs = [] \<or> xs = [[]])"
  by (induction xs c rule: Join.induct) auto

section \<open>The schema filter\<close>

lemma schemaExists_set: "schemaExists schema schemas = (schema \<in> set schemas)"
  by (induction schemas) auto

text \<open>The loop of \<^verbatim>\<open>filterSchemas\<close> is a filter.\<close>

lemma filterSchemas_loop_filter:
  "filterSchemas_loop P schemas anns acc =
     acc @ filter (\<lambda>a. HasPrefix (Key a) P \<longrightarrow> drop (length P) (Key a) \<in> set schemas) anns"
  by (induction anns arbitrary: acc) (simp_all add: schemaExists_set Let_def)

lemma findSchemasAnnotation_None:
  "(findSchemasAnnotation anns = None) = (\<forall>a\<in>set anns. Key a \<noteq> schemasFieldName)"
  by (induction anns) auto

lemma findSchemasAnnotation_first:
  "findSchemasAnnotation anns = Some m \<Longrightarrow>
     \<exists>before after. anns = before @ m # after \<and> Key m = schemasFieldName \<and>
       (\<forall>a\<in>set before. Key a \<noteq> schemasFieldName)"
proof (induction anns)
  case Nil
  then show ?case by simp
next
  case (Cons a anns)
  show ?case
  proof (cases "Key a = schemasFieldName")
    case True
    with Cons.prems have "m = a" by simp
    with True have "a # anns = [] @ m # anns \<and> Key m = schemasFieldName \<and>
       (\<forall>a\<in>set []. Key a \<noteq> schemasFieldName)" by simp
    then show ?thesis by blast
  next
    case False
    with Cons.prems have "findSchemasAnnotation anns = Some m" by simp
    from Cons.IH [OF this] obtain before after where
      h: "anns = before @ m # after" "Key m = schemasFieldName"
         "\<forall>a\<in>set before. Key a \<noteq> schemasFieldName" by blast
    with False have "a # anns = (a # before) @ m # after \<and> Key m = schemasFieldName \<and>
       (\<forall>x\<in>set (a # before). Key x \<noteq> schemasFieldName)" by simp
    then show ?thesis by blast
  qed
qed

text \<open>
  Claim C8. When the annotations hold a manifest annotation (key \<^verbatim>\<open>"schemas"\<close>),
  \<^verbatim>\<open>filterSchemas\<close> returns the annotations in their order, where one whose key
  carries the schema prefix is kept iff its key without the prefix is one of the pieces
  of the value of the first manifest annotation, split at the separator, and every
  other annotation is kept.
\<close>

theorem filterSchemas_keeps_manifest_schemas:
  assumes "a \<in> set anns" and "Key a = schemasFieldName"
  shows "\<exists>schemasAnn before after.
           anns = before @ schemasAnn # after \<and> Key schemasAnn = schemasFieldName \<and>
           (\<forall>b\<in>set before. Key b \<noteq> schemasFieldName) \<and>
           filterSchemas schemaPrefix anns =
             Inr (filter (\<lambda>b. HasPrefix (Key b) schemaPrefix \<longrightarrow>
                    drop (length schemaPrefix) (Key b)
                      \<in> set (Split (Value schemasAnn) schemasFieldSeparator)) anns)"
proof -
  from assms have "findSchemasAnnotation anns \<noteq> None"
    by (auto simp: findSchemasAnnotation_None)
  then obtain m where m: "findSchemasAnnotation anns = Some m"
    by blast
  from findSchemasAnnotation_first [OF m] obtain before after where
    h: "anns = before @ m # after" "Key m = schemasFieldName"
       "\<forall>b\<in>set before. Key b \<noteq> schemasFieldName" by blast
  have "filterSchemas schemaPrefix anns =
      Inr (filter (\<lambda>b. HasPrefix (Key b) schemaPrefix \<longrightarrow>
             drop (length schemaPrefix) (Key b)
               \<in> set (Split (Value m) schemasFieldSeparator)) anns)"
    using m by (simp add: filterSchemas_def filterSchemas_loop_filter)
  with h show ?thesis by blast
qed

theorem filterSchemas_keeps_manifest_schemas_witness:
  "filterSchemas ''_schema:''
     [\<lparr>Key = ''schemas'', Value = ''HTTPClient''\<rparr>,
      \<lparr>Key = ''_schema:HTTPClient'', Value = ''''\<rparr>,
      \<lparr>Key = ''_schema:HTTPServer'', Value = ''''\<rparr>,
      \<lparr>Key = ''Server.Request.Method'', Value = ''GET''\<rparr>] =
   Inr [\<lparr>Key = ''schemas'', Value = ''HTTPClient''\<rparr>,
        \<lparr>Key = ''_schema:HTTPClient'', Value = ''''\<rparr>,
        \<lparr>Key = ''Server.Request.Method'', Value = ''GET''\<rparr>]"
  using filterSchemas_keeps_manifest_schemas
    [of "\<lparr>Key = ''schemas'', Value = ''HTTPClient''\<rparr>"
        "[\<lparr>Key = ''schemas'', Value = ''HTTPClient''\<rparr>,
          \<lparr>Key = ''_schema:HTTPClient'', Value = ''''\<rparr>,
          \<lparr>Key = ''_schema:HTTPServer'', Value = ''''\<rparr>,
          \<lparr>Key = ''Server.Request.Method'', Value = ''GET''\<rparr>]" "''_schema:''"]
  by (auto simp: schemasFieldName_def schemasFieldSeparator_def HasPrefix_def
      Cons_eq_append_conv)

text \<open>
  Claim C9. When no annotation has the key \<^verbatim>\<open>"schemas"\<close>, \<^verbatim>\<open>filterSchemas\<close> reads
  through the nil pointer and panics; it returns a result exactly when a manifest
  annotation is among its input.
\<close>

theorem filterSchemas_nil_manifest_panics:
  "((\<forall>a\<in>set anns. Key a \<noteq> schemasFieldName) \<longrightarrow>
      filterSchemas schemaPrefix anns =
        Inl (Panic ''invalid memory address or nil pointer dereference'')) \<and>
   ((\<exists>r. filterSchemas schemaPrefix anns = Inr r) =
      (\<exists>a\<in>set anns. Key a = schemasFieldName))"
proof (cases "findSchemasAnnotation anns")
  case None
  have nokey: "\<forall>a\<in>set anns. Key a \<noteq> schemasFieldName"
    using None findSchemasAnnotation_None [of anns] by simp
  have "filterSchemas schemaPrefix anns =
      Inl (Panic ''invalid memory address or nil pointer dereference'')"
    unfolding filterSchemas_def None by simp
  with nokey show ?thesis
    by auto
next
  case (Some m)
  have haskey: "\<exists>a\<in>set anns. Key a = schemasFieldName"
    using Some findSchemasAnnotation_None [of anns] by auto
  have "\<exists>r. filterSchemas schemaPrefix anns = Inr r"
    unfolding filterSchemas_def Some by simp
  with haskey show ?thesis
    by auto
qed

theorem filterSchemas_nil_manifest_panics_witness:
  "filterSchemas ''_schema:'' [\<lparr>Key = ''_schema:HTTPClient'', Value = ''''\<rparr>] =
     Inl (Panic ''invalid memory address or nil pointer dereference'') \<and>
   filterSchemas ''_schema:'' [] =
     Inl (Panic ''invalid memory address or nil pointer dereference'') \<and>
   (\<exists>r. filterSchemas ''_schema:''
          [\<lparr>Key = ''_schema:HTTPClient'', Value = ''''\<rparr>,
           \<lparr>Key = ''schemas'', Value = ''HTTPClient''\<rparr>] = Inr r)"
  using filterSchemas_nil_manifest_panics
    [of "[\<lparr>Key = ''_schema:HTTPClient'', Value = ''''\<rparr>]" "''_schema:''"]
    filterSchemas_nil_manifest_panics [of "[]" "''_schema:''"]
    filterSchemas_nil_manifest_panics
    [of "[\<lparr>Key = ''_schema:HTTPClient'', Value = ''''\<rparr>,
          \<lparr>Key = ''schemas'', Value = ''HTTPClient''\<rparr>]" "''_schema:''"]
  by (simp add: schemasFieldName_def)

section \<open>The manifest of a submission and the merge of two manifests\<close>

lemma schemasFromAnnotations_loop_eq:
  "schemasFromAnnotations_loop P anns acc =
     acc @ map (\<lambda>a. drop (length P) (Key a)) (filter (\<lambda>a. HasPrefix (Key a) P) anns)"
  by (induction anns arbitrary: acc) simp_all

lemma schemasFromAnnotations_eq:
  "schemasFromAnnotations P anns =
     Join (map (\<lambda>a. drop (length P) (Key a)) (filter (\<lambda>a. HasPrefix (Key a) P) anns))
       schemasFieldSeparator"
  by (simp add: schemasFromAnnotations_def schemasFromAnnotations_loop_eq)

lemma manifestElements_no_sep:
  "x \<in> manifestElements field \<Longrightarrow> schemasFieldSeparator \<notin> set x"
  by (auto simp: manifestElements_def Split_no_sep split: iface.splits if_splits)

lemma manifestElements_Join_names:
  assumes "\<forall>n\<in>set names. n \<noteq> [] \<and> schemasFieldSeparator \<notin> set n"
  shows "manifestElements (IString (Join names schemasFieldSeparator)) = set names"
proof (cases "names = []")
  case True
  then show ?thesis by (simp add: manifestElements_def)
next
  case False
  have "names \<noteq> [[]]"
    using assms by auto
  with False have "Join names schemasFieldSeparator \<noteq> []"
    by (simp add: Join_empty_iff)
  moreover have "Split (Join names schemasFieldSeparator) schemasFieldSeparator = names"
    using False assms by (simp add: Split_Join)
  ultimately show ?thesis
    by (simp add: manifestElements_def)
qed

lemma mergeSchemasField_add_set:
  "set (mergeSchemasField_add sf schemas) = set schemas \<union> set sf"
  by (induction sf arbitrary: schemas) auto

lemma mergeSchemasField_add_distinct:
  "distinct schemas \<Longrightarrow> distinct (mergeSchemasField_add sf schemas)"
  by (induction sf arbitrary: schemas) auto

lemma mergeSchemasField_schemas_set:
  "set (mergeSchemasField_schemas strFields schemas) =
     set schemas \<union> (\<Union>s\<in>set strFields. manifestElements (IString s))"
  by (induction strFields arbitrary: schemas)
     (auto simp: mergeSchemasField_add_set manifestElements_def)

lemma mergeSchemasField_schemas_distinct:
  "distinct schemas \<Longrightarrow> distinct (mergeSchemasField_schemas strFields schemas)"
  by (induction strFields arbitrary: schemas) (auto simp: mergeSchemasField_add_distinct)

lemma mergeSchemasField_strFields_ok:
  assumes "new = INil \<or> (\<exists>s. new = IString s)" and "old = INil \<or> (\<exists>s. old = IString s)"
  shows "\<exists>strFields. mergeSchemasField_strFields [new, old] [] = Inr strFields \<and>
           (\<Union>s\<in>set strFields. manifestElements (IString s)) =
             manifestElements new \<union> manifestElements old"
  using assms by (auto simp: manifestElements_def)

lemma mergeSchemasField_total:
  assumes "new = INil \<or> (\<exists>s. new = IString s)" and "old = INil \<or> (\<exists>s. old = IString s)"
  shows "\<exists>r. mergeSchemasField rangeKeys new old = Inr r"
  using assms by (auto simp: mergeSchemasField_def Let_def)

text \<open>
  The string that \<^verbatim>\<open>mergeSchemasField\<close> returns is the join of the keys of the cache:
  pairwise distinct, and together the elements of both inputs.
\<close>

lemma mergeSchemasField_joined:
  assumes perm: "\<And>ks. mset (rangeKeys ks) = mset ks"
    and new: "new = INil \<or> (\<exists>s. new = IString s)"
    and old: "old = INil \<or> (\<exists>s. old = IString s)"
  shows "\<exists>result. mergeSchemasField rangeKeys new old = Inr (Join result schemasFieldSeparator) \<and>
           distinct result \<and> set result = manifestElements new \<union> manifestElements old"
proof -
  from mergeSchemasField_strFields_ok [OF new old] obtain strFields where
    s: "mergeSchemasField_strFields [new, old] [] = Inr strFields"
       "(\<Union>s\<in>set strFields. manifestElements (IString s)) =
          manifestElements new \<union> manifestElements old" by blast
  let ?schemas = "mergeSchemasField_schemas strFields []"
  have m: "mset (rangeKeys ?schemas) = mset ?schemas"
    by (rule perm)
  have d: "distinct (rangeKeys ?schemas)"
    using m mergeSchemasField_schemas_distinct [of "[]" strFields]
    by (metis distinct.simps(1) mset_eq_imp_distinct_iff)
  have e: "set (rangeKeys ?schemas) = manifestElements new \<union> manifestElements old"
    using m s(2) mergeSchemasField_schemas_set [of strFields "[]"]
    by (metis empty_set mset_eq_setD sup_bot.left_neutral)
  have "mergeSchemasField rangeKeys new old =
      Inr (Join (rangeKeys ?schemas) schemasFieldSeparator)"
    using s(1) by (simp add: mergeSchemasField_def Let_def)
  with d e show ?thesis by blast
qed

lemma mergeSchemasField_elements:
  assumes perm: "\<And>ks. mset (rangeKeys ks) = mset ks"
    and new: "new = INil \<or> (\<exists>s. new = IString s)"
    and old: "old = INil \<or> (\<exists>s. old = IString s)"
  shows "\<exists>r. mergeSchemasField rangeKeys new old = Inr r \<and>
           distinct (Split r schemasFieldSeparator) \<and>
           (manifestElements new \<union> manifestElements old \<noteq> {[]} \<longrightarrow>
              manifestElements (IString r) = manifestElements new \<union> manifestElements old) \<and>
           (manifestElements new \<union> manifestElements old = {[]} \<longrightarrow> r = [])"
proof -
  let ?U = "manifestElements new \<union> manifestElements old"
  from mergeSchemasField_joined [OF perm new old] obtain result where
    r: "mergeSchemasField rangeKeys new old = Inr (Join result schemasFieldSeparator)"
       "distinct result" "set result = ?U" by blast
  let ?r = "Join result schemasFieldSeparator"
  have nosep: "\<forall>x\<in>set result. schemasFieldSeparator \<notin> set x"
    using r(3) manifestElements_no_sep by blast
  have split: "result \<noteq> [] \<Longrightarrow> Split ?r schemasFieldSeparator = result"
    using nosep by (simp add: Split_Join)
  have dist: "distinct (Split ?r schemasFieldSeparator)"
  proof (cases "result = []")
    case True
    then show ?thesis by simp
  next
    case False
    then show ?thesis using split r(2) by simp
  qed
  have one: "?U = {[]} \<longrightarrow> ?r = []"
  proof
    assume "?U = {[]}"
    with r(2,3) have "distinct result" "set result = {[]}"
      by simp_all
    then have "result = [[]]"
    proof (cases result)
      case Nil
      with \<open>set result = {[]}\<close> show ?thesis by simp
    next
      case (Cons x xs)
      with \<open>set result = {[]}\<close> \<open>distinct result\<close>
      have "x = []" "set xs \<subseteq> {[]}" "[] \<notin> set xs" by auto
      then have "xs = []" by (cases xs) auto
      with Cons \<open>x = []\<close> show ?thesis by simp
    qed
    then show "?r = []" by simp
  qed
  have other: "?U \<noteq> {[]} \<longrightarrow> manifestElements (IString ?r) = ?U"
  proof
    assume ne: "?U \<noteq> {[]}"
    show "manifestElements (IString ?r) = ?U"
    proof (cases "result = []")
      case True
      then show ?thesis using r(3) by (simp add: manifestElements_def)
    next
      case False
      have "result \<noteq> [[]]"
        using ne r(3) by auto
      then have "?r \<noteq> []"
        using False by (simp add: Join_empty_iff)
      then show ?thesis
        using split [OF False] r(3) by (simp add: manifestElements_def)
    qed
  qed
  from r(1) dist one other show ?thesis by blast
qed

section \<open>Collect\<close>

subsection \<open>A span without a stored record\<close>


text \<open>
  The lookup finds no stored record exactly when the query gives no series.
\<close>

lemma findSpanPoint_None_iff:
  "(findSpanPoint parseTime result = Inr None) = (result = Inr [])"
  by (auto simp: findSpanPoint_def Let_def split: sum.splits if_splits)





subsection \<open>A span with a stored record\<close>

lemma findSpanPoint_loop_strings:
  "findSpanPoint_loop parseTime columns i flds p = Inr p' \<Longrightarrow>
   (\<forall>k. Fields p k = None \<or> (\<exists>s. Fields p k = Some (IString s))) \<Longrightarrow>
   (\<forall>k. Fields p' k = None \<or> (\<exists>s. Fields p' k = Some (IString s)))"
proof (induction flds arbitrary: i p)
  case Nil
  then show ?case by simp
next
  case (Cons field flds)
  show ?case
  proof (cases field)
    case INil
    with Cons.prems have "findSpanPoint_loop parseTime columns (Suc i) flds p = Inr p'"
      by (simp split: if_splits)
    from Cons.IH [OF this Cons.prems(2)] show ?thesis .
  next
    case (IString s)
    from Cons.prems(1) IString obtain q where
      q: "findSpanPoint_loop parseTime columns (Suc i) flds q = Inr p'"
         "Fields q = (Fields p)(columns ! i \<mapsto> IString s)"
      by (auto simp: Let_def split: if_splits sum.splits)
    have "\<forall>k. Fields q k = None \<or> (\<exists>s. Fields q k = Some (IString s))"
      using Cons.prems(2) q(2) by simp
    from Cons.IH [OF q(1) this] show ?thesis .
  next
    case (IOther ty)
    with Cons.prems show ?thesis by (simp split: if_splits)
  qed
qed

text \<open>Every field of the point that \<^verbatim>\<open>findSpanPoint\<close> returns is a string.\<close>

lemma findSpanPoint_fields_strings:
  assumes "findSpanPoint parseTime result = Inr (Some stored)"
  shows "Fields stored k = None \<or> (\<exists>s. Fields stored k = Some (IString s))"
proof -
  from assms obtain columns flds where
    "findSpanPoint_loop parseTime columns 0 flds
       \<lparr>Measurement = [], Tags = Map.empty, Time = 0, Fields = Map.empty\<rparr> = Inr stored"
    by (fastforce simp: findSpanPoint_def Let_def split: sum.splits if_splits)
  from findSpanPoint_loop_strings [OF this] show ?thesis
    by simp
qed

lemma findSpanPoint_strings:
  assumes "findSpanPoint parseTime result = Inr (Some stored)"
  shows "index (Fields stored) k = INil \<or> (\<exists>s. index (Fields stored) k = IString s)"
  using findSpanPoint_fields_strings [OF assms, of k] by (auto simp: index_def)

lemma findSpanPoint_loop_keeps_time:
  "findSpanPoint_loop parseTime columns i flds p = Inr p' \<Longrightarrow>
   (\<forall>j. i \<le> j \<and> j < length columns \<longrightarrow> columns ! j \<noteq> ''time'') \<Longrightarrow>
   Time p' = Time p"
proof (induction flds arbitrary: i p)
  case Nil
  then show ?case by simp
next
  case (Cons field flds)
  from Cons.prems(2) have later: "\<forall>j. Suc i \<le> j \<and> j < length columns \<longrightarrow> columns ! j \<noteq> ''time''"
    by simp
  from Cons.prems(1) have i: "i < length columns"
    by (simp split: if_splits)
  with Cons.prems(2) have nt: "columns ! i \<noteq> ''time''"
    by simp
  show ?case
  proof (cases field)
    case INil
    with Cons.prems(1) i have "findSpanPoint_loop parseTime columns (Suc i) flds p = Inr p'"
      by simp
    from Cons.IH [OF this later] show ?thesis .
  next
    case (IString s)
    with Cons.prems(1) i nt have
      "findSpanPoint_loop parseTime columns (Suc i) flds
         (p\<lparr>Fields := (Fields p)(columns ! i \<mapsto> IString s)\<rparr>) = Inr p'"
      by (simp add: Let_def)
    from Cons.IH [OF this later] show ?thesis by simp
  next
    case (IOther ty)
    with Cons.prems(1) i show ?thesis by simp
  qed
qed

text \<open>
  The time of the point that \<^verbatim>\<open>findSpanPoint\<close> returns is the parsed value of the
  \<^verbatim>\<open>time\<close> column of the stored row.
\<close>

lemma findSpanPoint_time_column:
  assumes "findSpanPoint parseTime (Inr [r]) = Inr (Some stored)"
    and "Columns r = ''time'' # columns" and "''time'' \<notin> set columns"
    and "Values r = (IString ts # flds) # rows"
  shows "parseTime ts = Inr (Time stored)"
proof -
  from assms(1,2,4) obtain t where
    t: "parseTime ts = Inr t"
       "findSpanPoint_loop parseTime (''time'' # columns) (Suc 0) flds
          \<lparr>Measurement = [], Tags = Map.empty, Time = t,
           Fields = [''time'' \<mapsto> IString ts]\<rparr> = Inr stored"
    by (auto simp: findSpanPoint_def Let_def split: sum.splits)
  have "\<forall>j. Suc 0 \<le> j \<and> j < length (''time'' # columns) \<longrightarrow> (''time'' # columns) ! j \<noteq> ''time''"
    using assms(3) by (auto simp: nth_Cons in_set_conv_nth split: nat.splits)
  from findSpanPoint_loop_keeps_time [OF t(2) this] t(1) show ?thesis
    by simp
qed

lemma Collect_rewrite:
  assumes "findSpanPoint parseTime result = Inr (Some stored)"
    and "mergeSchemasField rangeKeys (IString (schemasFromAnnotations P anns))
           (index (Fields stored) schemasFieldName) = Inr schemas"
  shows "InfluxDBStore_Collect P idString parseTime rangeKeys result now write spanID anns =
     (let p = stored\<lparr>Measurement := spanMeasurementName,
                Tags := [''trace_id'' \<mapsto> idString (Trace spanID),
                         ''span_id'' \<mapsto> idString (Span spanID),
                         ''parent_id'' \<mapsto> idString (Parent spanID)],
                Fields := (extendFields (Collect_fields anns Map.empty)
                             (withoutEmptyFields (Fields stored)))
                          (schemasFieldName \<mapsto> IString schemas)\<rparr>
      in (Some p, write p))"
  using assms by (simp add: InfluxDBStore_Collect_def Let_def)

text \<open>
  With a stored record the merge of the manifests cannot fail, and the point written is
  the stored point with the measurement, the tags and the fields replaced.
\<close>

lemma Collect_rewrite_point:
  assumes found: "findSpanPoint parseTime result = Inr (Some stored)"
  shows "\<exists>schemas.
     mergeSchemasField rangeKeys (IString (schemasFromAnnotations P anns))
       (index (Fields stored) schemasFieldName) = Inr schemas \<and>
     InfluxDBStore_Collect P idString parseTime rangeKeys result now write spanID anns =
       (Some (stored\<lparr>Measurement := spanMeasurementName,
                Tags := [''trace_id'' \<mapsto> idString (Trace spanID),
                         ''span_id'' \<mapsto> idString (Span spanID),
                         ''parent_id'' \<mapsto> idString (Parent spanID)],
                Fields := (extendFields (Collect_fields anns Map.empty)
                             (withoutEmptyFields (Fields stored)))
                          (schemasFieldName \<mapsto> IString schemas)\<rparr>),
        write (stored\<lparr>Measurement := spanMeasurementName,
                Tags := [''trace_id'' \<mapsto> idString (Trace spanID),
                         ''span_id'' \<mapsto> idString (Span spanID),
                         ''parent_id'' \<mapsto> idString (Parent spanID)],
                Fields := (extendFields (Collect_fields anns Map.empty)
                             (withoutEmptyFields (Fields stored)))
                          (schemasFieldName \<mapsto> IString schemas)\<rparr>))"
proof -
  have "\<exists>r. mergeSchemasField rangeKeys (IString (schemasFromAnnotations P anns))
       (index (Fields stored) schemasFieldName) = Inr r"
    by (rule mergeSchemasField_total)
       (simp_all add: findSpanPoint_strings [OF found, of schemasFieldName])
  then obtain schemas where
    m: "mergeSchemasField rangeKeys (IString (schemasFromAnnotations P anns))
       (index (Fields stored) schemasFieldName) = Inr schemas" by blast
  from Collect_rewrite [OF found m] m show ?thesis
    by (auto simp: Let_def)
qed







text \<open>
  Claim C7, as amended. A \<^verbatim>\<open>Collect\<close> that finds a stored record writes the point
  with the time of that record as \<^verbatim>\<open>findSpanPoint\<close> read it, whatever the current
  time is.
\<close>

theorem Collect_rewrite_keeps_stored_time:
  assumes found: "findSpanPoint parseTime result = Inr (Some stored)"
  shows "\<exists>p. InfluxDBStore_Collect schemaPrefix idString parseTime rangeKeys result now write spanID anns =
           (Some p, write p) \<and> Time p = Time stored"
proof -
  from Collect_rewrite_point [OF found] obtain p where
    "InfluxDBStore_Collect schemaPrefix idString parseTime rangeKeys result now write spanID anns =
       (Some p, write p)" "Time p = Time stored"
    by fastforce
  then show ?thesis by blast
qed

theorem Collect_rewrite_keeps_stored_time_witness:
  "\<exists>p. InfluxDBStore_Collect ''_schema:'' (\<lambda>i. ''0'')
          (\<lambda>s. if s = ''2016-01-01T00:00:00Z'' then Inr 5 else Inl (Error ''parse'')) rev
          (Inr [\<lparr>RowTags = Map.empty, Columns = [''time'', ''k'', ''schemas''],
                 Values = [[IString ''2016-01-01T00:00:00Z'', IString ''v1'', IString '''']]\<rparr>])
          9 (\<lambda>p. None) \<lparr>Trace = 1, Span = 1, Parent = 0\<rparr>
          [\<lparr>Key = ''k'', Value = ''v2''\<rparr>] = (Some p, None) \<and>
        Time p = 5"
proof -
  let ?stored = "\<lparr>Measurement = [], Tags = Map.empty, Time = 5,
      Fields = [''time'' \<mapsto> IString ''2016-01-01T00:00:00Z'', ''k'' \<mapsto> IString ''v1'',
                ''schemas'' \<mapsto> IString '''']\<rparr>"
  have found: "findSpanPoint
      (\<lambda>s. if s = ''2016-01-01T00:00:00Z'' then Inr 5 else Inl (Error ''parse''))
      (Inr [\<lparr>RowTags = Map.empty, Columns = [''time'', ''k'', ''schemas''],
             Values = [[IString ''2016-01-01T00:00:00Z'', IString ''v1'', IString '''']]\<rparr>])
      = Inr (Some ?stored)"
    by (simp add: findSpanPoint_def Let_def)
  show ?thesis
    using Collect_rewrite_keeps_stored_time [OF found, of "''_schema:''" "\<lambda>i. ''0''" rev 9
        "\<lambda>p. None" "\<lparr>Trace = 1, Span = 1, Parent = 0\<rparr>" "[\<lparr>Key = ''k'', Value = ''v2''\<rparr>]"]
    by auto
qed

text \<open>
  Claim C7 as stated fails: the record was stored at time 5, the call is made at time 9,
  and the point written carries a time other than 9.
\<close>

theorem Collect_rewrite_time_counterexample:
  "\<exists>p. InfluxDBStore_Collect ''_schema:'' (\<lambda>i. ''0'')
          (\<lambda>s. if s = ''2016-01-01T00:00:00Z'' then Inr 5 else Inl (Error ''parse'')) rev
          (Inr [\<lparr>RowTags = Map.empty, Columns = [''time'', ''k'', ''schemas''],
                 Values = [[IString ''2016-01-01T00:00:00Z'', IString ''v1'', IString '''']]\<rparr>])
          9 (\<lambda>p. None) \<lparr>Trace = 1, Span = 1, Parent = 0\<rparr>
          [\<lparr>Key = ''k'', Value = ''v2''\<rparr>] = (Some p, None) \<and>
        Time p \<noteq> 9"
  by (simp add: InfluxDBStore_Collect_def findSpanPoint_def Let_def mergeSchemasField_def
      index_def schemasFieldName_def schemasFromAnnotations_def HasPrefix_def)

text \<open>
  Claim C3, as amended. For inputs that are strings or absent, and any order of
  \<^verbatim>\<open>range\<close> over the cache, \<^verbatim>\<open>mergeSchemasField\<close> returns a string whose pieces are
  pairwise distinct and whose elements are the union of the elements of the inputs,
  unless that union holds the empty name alone: then the result is the empty string.
  Hence the manifest written by a \<^verbatim>\<open>Collect\<close> that finds a stored record has the
  elements of the stored manifest and of the manifest of the submission (with the same
  exception), among them every submitted schema name when these names are not empty
  and hold no separator.
\<close>

theorem mergeSchemasField_union_of_manifests:
  assumes perm: "\<And>ks. mset (rangeKeys ks) = mset ks"
    and new: "new = INil \<or> (\<exists>s. new = IString s)"
    and old: "old = INil \<or> (\<exists>s. old = IString s)"
    and found: "findSpanPoint parseTime result = Inr (Some stored)"
  shows "(\<exists>r. mergeSchemasField rangeKeys new old = Inr r \<and>
            distinct (Split r schemasFieldSeparator) \<and>
            (manifestElements new \<union> manifestElements old \<noteq> {[]} \<longrightarrow>
               manifestElements (IString r) = manifestElements new \<union> manifestElements old) \<and>
            (manifestElements new \<union> manifestElements old = {[]} \<longrightarrow> r = [])) \<and>
         (\<exists>p r. InfluxDBStore_Collect schemaPrefix idString parseTime rangeKeys result now
                   write spanID anns = (Some p, write p) \<and>
            Fields p schemasFieldName = Some (IString r) \<and>
            (manifestElements (IString (schemasFromAnnotations schemaPrefix anns)) \<union>
               manifestElements (index (Fields stored) schemasFieldName) \<noteq> {[]} \<longrightarrow>
             manifestElements (IString r) =
               manifestElements (IString (schemasFromAnnotations schemaPrefix anns)) \<union>
               manifestElements (index (Fields stored) schemasFieldName)) \<and>
            ((\<forall>a\<in>set anns. HasPrefix (Key a) schemaPrefix \<longrightarrow>
                 drop (length schemaPrefix) (Key a) \<noteq> [] \<and>
                 schemasFieldSeparator \<notin> set (drop (length schemaPrefix) (Key a))) \<longrightarrow>
             (\<forall>a\<in>set anns. HasPrefix (Key a) schemaPrefix \<longrightarrow>
                 drop (length schemaPrefix) (Key a) \<in> manifestElements (IString r))))"
proof
  show "\<exists>r. mergeSchemasField rangeKeys new old = Inr r \<and>
            distinct (Split r schemasFieldSeparator) \<and>
            (manifestElements new \<union> manifestElements old \<noteq> {[]} \<longrightarrow>
               manifestElements (IString r) = manifestElements new \<union> manifestElements old) \<and>
            (manifestElements new \<union> manifestElements old = {[]} \<longrightarrow> r = [])"
    by (rule mergeSchemasField_elements [OF perm new old])
next
  let ?new = "IString (schemasFromAnnotations schemaPrefix anns)"
  let ?old = "index (Fields stored) schemasFieldName"
  let ?names = "map (\<lambda>a. drop (length schemaPrefix) (Key a))
                  (filter (\<lambda>a. HasPrefix (Key a) schemaPrefix) anns)"
  from Collect_rewrite_point [OF found, of rangeKeys schemaPrefix anns idString now "write" spanID]
  obtain schemas p where
    m: "mergeSchemasField rangeKeys ?new ?old = Inr schemas"
    and c: "InfluxDBStore_Collect schemaPrefix idString parseTime rangeKeys result now
              write spanID anns = (Some p, write p)"
    and f: "Fields p schemasFieldName = Some (IString schemas)"
    by fastforce
  have "?new = INil \<or> (\<exists>s. ?new = IString s)"
    by simp
  from mergeSchemasField_elements
    [OF perm this findSpanPoint_strings [OF found, of schemasFieldName]]
  obtain r where
    r: "mergeSchemasField rangeKeys ?new ?old = Inr r"
       "manifestElements ?new \<union> manifestElements ?old \<noteq> {[]} \<longrightarrow>
          manifestElements (IString r) = manifestElements ?new \<union> manifestElements ?old"
    by blast
  from r(1) m have "r = schemas"
    by simp
  with r(2) have u: "manifestElements ?new \<union> manifestElements ?old \<noteq> {[]} \<longrightarrow>
      manifestElements (IString schemas) = manifestElements ?new \<union> manifestElements ?old"
    by simp
  have n: "\<forall>a\<in>set anns. HasPrefix (Key a) schemaPrefix \<longrightarrow>
        drop (length schemaPrefix) (Key a) \<in> manifestElements (IString schemas)"
    if ok: "\<forall>a\<in>set anns. HasPrefix (Key a) schemaPrefix \<longrightarrow>
        drop (length schemaPrefix) (Key a) \<noteq> [] \<and>
        schemasFieldSeparator \<notin> set (drop (length schemaPrefix) (Key a))"
  proof (intro ballI impI)
    fix a
    assume a: "a \<in> set anns" "HasPrefix (Key a) schemaPrefix"
    have "\<forall>n\<in>set ?names. n \<noteq> [] \<and> schemasFieldSeparator \<notin> set n"
      using ok by auto
    then have e: "manifestElements ?new = set ?names"
      by (simp add: schemasFromAnnotations_eq manifestElements_Join_names)
    have in_names: "drop (length schemaPrefix) (Key a) \<in> set ?names"
      using a by auto
    moreover have "drop (length schemaPrefix) (Key a) \<noteq> []"
      using ok a by blast
    ultimately have "manifestElements ?new \<union> manifestElements ?old \<noteq> {[]}"
      using e by blast
    with u have "manifestElements (IString schemas) =
        manifestElements ?new \<union> manifestElements ?old"
      by blast
    with e in_names show "drop (length schemaPrefix) (Key a) \<in> manifestElements (IString schemas)"
      by blast
  qed
  from c f u n show "\<exists>p r. InfluxDBStore_Collect schemaPrefix idString parseTime rangeKeys
            result now write spanID anns = (Some p, write p) \<and>
            Fields p schemasFieldName = Some (IString r) \<and>
            (manifestElements ?new \<union> manifestElements ?old \<noteq> {[]} \<longrightarrow>
             manifestElements (IString r) = manifestElements ?new \<union> manifestElements ?old) \<and>
            ((\<forall>a\<in>set anns. HasPrefix (Key a) schemaPrefix \<longrightarrow>
                 drop (length schemaPrefix) (Key a) \<noteq> [] \<and>
                 schemasFieldSeparator \<notin> set (drop (length schemaPrefix) (Key a))) \<longrightarrow>
             (\<forall>a\<in>set anns. HasPrefix (Key a) schemaPrefix \<longrightarrow>
                 drop (length schemaPrefix) (Key a) \<in> manifestElements (IString r)))"
    by blast
qed

theorem mergeSchemasField_union_of_manifests_witness:
  "(\<exists>r. mergeSchemasField rev (IString ''B,A'') (IString ''A,C'') = Inr r \<and>
        manifestElements (IString r) = {''A'', ''B'', ''C''}) \<and>
   (\<exists>p r. InfluxDBStore_Collect ''_schema:'' (\<lambda>i. ''0'')
          (\<lambda>s. if s = ''2016-01-01T00:00:00Z'' then Inr 5 else Inl (Error ''parse'')) rev
          (Inr [\<lparr>RowTags = Map.empty, Columns = [''time'', ''schemas''],
                 Values = [[IString ''2016-01-01T00:00:00Z'', IString ''HTTPClient'']]\<rparr>])
          9 (\<lambda>p. None) \<lparr>Trace = 1, Span = 1, Parent = 0\<rparr>
          [\<lparr>Key = ''_schema:HTTPServer'', Value = ''''\<rparr>] = (Some p, None) \<and>
        Fields p schemasFieldName = Some (IString r) \<and>
        manifestElements (IString r) = {''HTTPClient'', ''HTTPServer''})"
proof -
  let ?stored = "\<lparr>Measurement = [], Tags = Map.empty, Time = 5,
      Fields = [''time'' \<mapsto> IString ''2016-01-01T00:00:00Z'',
                ''schemas'' \<mapsto> IString ''HTTPClient'']\<rparr>"
  let ?anns = "[\<lparr>Key = ''_schema:HTTPServer'', Value = ''''\<rparr>]"
  have found: "findSpanPoint
      (\<lambda>s. if s = ''2016-01-01T00:00:00Z'' then Inr 5 else Inl (Error ''parse''))
      (Inr [\<lparr>RowTags = Map.empty, Columns = [''time'', ''schemas''],
             Values = [[IString ''2016-01-01T00:00:00Z'', IString ''HTTPClient'']]\<rparr>])
      = Inr (Some ?stored)"
    by (simp add: findSpanPoint_def Let_def)
  have perm: "\<And>ks :: string list. mset (rev ks) = mset ks"
    by simp
  have new: "IString ''B,A'' = INil \<or> (\<exists>s. IString ''B,A'' = IString s)"
    by simp
  have old: "IString ''A,C'' = INil \<or> (\<exists>s. IString ''A,C'' = IString s)"
    by simp
  have u1: "manifestElements (IString ''B,A'') \<union> manifestElements (IString ''A,C'') =
      {''A'', ''B'', ''C''}"
    by (auto simp: manifestElements_def schemasFieldSeparator_def)
  have u2: "manifestElements (IString (schemasFromAnnotations ''_schema:'' ?anns)) \<union>
      manifestElements (index (Fields ?stored) schemasFieldName) =
      {''HTTPClient'', ''HTTPServer''}"
    by (auto simp: manifestElements_def schemasFieldSeparator_def schemasFromAnnotations_def
        HasPrefix_def index_def schemasFieldName_def)
  have ne1: "{''A'', ''B'', ''C''} \<noteq> {[]::string}"
    by auto
  have ne2: "{''HTTPClient'', ''HTTPServer''} \<noteq> {[]::string}"
    by auto
  note t = mergeSchemasField_union_of_manifests [OF perm new old found, of "''_schema:''"
      "\<lambda>i. ''0''" 9 "\<lambda>p. None" "\<lparr>Trace = 1, Span = 1, Parent = 0\<rparr>" ?anns]
  from t [THEN conjunct1] obtain r where
    r: "mergeSchemasField rev (IString ''B,A'') (IString ''A,C'') = Inr r"
       "manifestElements (IString ''B,A'') \<union> manifestElements (IString ''A,C'') \<noteq> {[]} \<longrightarrow>
          manifestElements (IString r) =
            manifestElements (IString ''B,A'') \<union> manifestElements (IString ''A,C'')"
    by blast
  have "manifestElements (IString ''B,A'') \<union> manifestElements (IString ''A,C'') \<noteq> {[]}"
    by (simp only: u1 ne1 not_False_eq_True)
  with r(2) have "manifestElements (IString r) =
      manifestElements (IString ''B,A'') \<union> manifestElements (IString ''A,C'')"
    by (rule mp)
  then have "manifestElements (IString r) = {''A'', ''B'', ''C''}"
    by (simp only: u1)
  with r(1) have first: "\<exists>r. mergeSchemasField rev (IString ''B,A'') (IString ''A,C'') = Inr r \<and>
        manifestElements (IString r) = {''A'', ''B'', ''C''}"
    by blast
  from t [THEN conjunct2] obtain p q where
    c: "InfluxDBStore_Collect ''_schema:'' (\<lambda>i. ''0'')
          (\<lambda>s. if s = ''2016-01-01T00:00:00Z'' then Inr 5 else Inl (Error ''parse'')) rev
          (Inr [\<lparr>RowTags = Map.empty, Columns = [''time'', ''schemas''],
                 Values = [[IString ''2016-01-01T00:00:00Z'', IString ''HTTPClient'']]\<rparr>])
          9 (\<lambda>p. None) \<lparr>Trace = 1, Span = 1, Parent = 0\<rparr> ?anns = (Some p, None)"
    and f: "Fields p schemasFieldName = Some (IString q)"
    and e: "manifestElements (IString (schemasFromAnnotations ''_schema:'' ?anns)) \<union>
              manifestElements (index (Fields ?stored) schemasFieldName) \<noteq> {[]} \<longrightarrow>
            manifestElements (IString q) =
              manifestElements (IString (schemasFromAnnotations ''_schema:'' ?anns)) \<union>
              manifestElements (index (Fields ?stored) schemasFieldName)"
    by blast
  have "manifestElements (IString (schemasFromAnnotations ''_schema:'' ?anns)) \<union>
      manifestElements (index (Fields ?stored) schemasFieldName) \<noteq> {[]}"
    by (simp only: u2 ne2 not_False_eq_True)
  with e have "manifestElements (IString q) =
      manifestElements (IString (schemasFromAnnotations ''_schema:'' ?anns)) \<union>
      manifestElements (index (Fields ?stored) schemasFieldName)"
    by (rule mp)
  then have "manifestElements (IString q) = {''HTTPClient'', ''HTTPServer''}"
    by (simp only: u2)
  with c f have second: "\<exists>p r. InfluxDBStore_Collect ''_schema:'' (\<lambda>i. ''0'')
          (\<lambda>s. if s = ''2016-01-01T00:00:00Z'' then Inr 5 else Inl (Error ''parse'')) rev
          (Inr [\<lparr>RowTags = Map.empty, Columns = [''time'', ''schemas''],
                 Values = [[IString ''2016-01-01T00:00:00Z'', IString ''HTTPClient'']]\<rparr>])
          9 (\<lambda>p. None) \<lparr>Trace = 1, Span = 1, Parent = 0\<rparr> ?anns = (Some p, None) \<and>
        Fields p schemasFieldName = Some (IString r) \<and>
        manifestElements (IString r) = {''HTTPClient'', ''HTTPServer''}"
    by blast
  from first second show ?thesis
    by (rule conjI)
qed

text \<open>
  Claim C3 as stated fails: the input \<^verbatim>\<open>","\<close> has the empty name as its one
  element, and the result is the empty string, the same as for two absent inputs, whose
  union is empty. And a submitted schema name that holds the separator is not an
  element of the manifest that is written: the manifest holds its pieces.
\<close>

theorem mergeSchemasField_union_of_manifests_counterexample:
  "mergeSchemasField rev (IString '','') INil = Inr [] \<and>
   mergeSchemasField rev INil INil = Inr [] \<and>
   manifestElements (IString '','') \<union> manifestElements INil = {[]} \<and>
   manifestElements INil \<union> manifestElements INil = {} \<and>
   manifestElements (IString []) = {} \<and>
   (\<exists>p. InfluxDBStore_Collect ''_schema:'' (\<lambda>i. ''0'')
          (\<lambda>s. if s = ''2016-01-01T00:00:00Z'' then Inr 5 else Inl (Error ''parse'')) rev
          (Inr [\<lparr>RowTags = Map.empty, Columns = [''time'', ''schemas''],
                 Values = [[IString ''2016-01-01T00:00:00Z'', IString '''']]\<rparr>])
          9 (\<lambda>p. None) \<lparr>Trace = 1, Span = 1, Parent = 0\<rparr>
          [\<lparr>Key = ''_schema:a,b'', Value = ''''\<rparr>] = (Some p, None) \<and>
        Fields p schemasFieldName = Some (IString ''b,a'') \<and>
        ''a,b'' \<notin> manifestElements (IString ''b,a''))"
  by (simp add: mergeSchemasField_def manifestElements_def schemasFieldSeparator_def
      InfluxDBStore_Collect_def findSpanPoint_def Let_def index_def schemasFieldName_def
      schemasFromAnnotations_def HasPrefix_def)

section \<open>Attaching children under a root\<close>

subsection \<open>Finding the parent and appending to it\<close>

text \<open>
  The walk finds a node exactly when the parent identifier of the child is the span
  identifier of a node of the tree, and the path it returns leads to such a node.
\<close>

lemma walk_None_iff:
  "(walkToParent t c = None) = (Parent (ID (span c)) \<notin> ids t)"
  "(walkToParent_subs subs i c = None) = (Parent (ID (span c)) \<notin> (\<Union>t\<in>set subs. ids t))"
proof (induction t c and subs i c rule: walkToParent_walkToParent_subs.induct)
  case (1 s subs child)
  then show ?case by auto
next
  case (2 i child)
  then show ?case by simp
next
  case (3 sub subs i child)
  then show ?case
    by (cases sub) (auto split: option.splits)
qed

lemma walk_nodeAt:
  "walkToParent t c = Some p \<Longrightarrow>
     \<exists>n. nodeAt t p = Some n \<and> Span (ID (span n)) = Parent (ID (span c))"
  "walkToParent_subs subs i c = Some p \<Longrightarrow>
     \<exists>k q n. p = (i + k) # q \<and> nodeAt_sub subs k q = Some n \<and>
       Span (ID (span n)) = Parent (ID (span c))"
proof (induction t c and subs i c arbitrary: p and p rule: walkToParent_walkToParent_subs.induct)
  case (1 s subs child)
  show ?case
  proof (cases "Span (ID s) = Parent (ID (span child))")
    case True
    with 1(2) show ?thesis by auto
  next
    case False
    with 1(2) have "walkToParent_subs subs 0 child = Some p" by simp
    from 1(1) [OF False this] show ?thesis by auto
  qed
next
  case (2 i child)
  then show ?case by simp
next
  case (3 sub subs i child)
  show ?case
  proof (cases "Span (ID (span sub)) = Parent (ID (span child))")
    case True
    with 3(3) have "p = (i + 0) # []" by simp
    moreover have "nodeAt_sub (sub # subs) 0 [] = Some sub" by simp
    ultimately show ?thesis using True by blast
  next
    case False
    show ?thesis
    proof (cases "walkToParent sub child")
      case None
      with False 3(3) have w: "walkToParent_subs subs (Suc i) child = Some p" by simp
      from 3(2) [OF False None w] obtain k q n where
        "p = (Suc i + k) # q" "nodeAt_sub subs k q = Some n"
        "Span (ID (span n)) = Parent (ID (span child))" by blast
      then have "p = (i + Suc k) # q \<and> nodeAt_sub (sub # subs) (Suc k) q = Some n \<and>
          Span (ID (span n)) = Parent (ID (span child))" by simp
      then show ?thesis by blast
    next
      case (Some r)
      with False 3(3) have p: "p = (i + 0) # r" by simp
      from 3(1) [OF False Some] obtain n where
        "nodeAt sub r = Some n" "Span (ID (span n)) = Parent (ID (span child))" by blast
      then have "nodeAt_sub (sub # subs) 0 r = Some n \<and>
          Span (ID (span n)) = Parent (ID (span child))" by simp
      with p show ?thesis by blast
    qed
  qed
qed

lemma findTraceParent_None_iff:
  "(findTraceParent root c = None) = (Parent (ID (span c)) \<notin> ids root)"
  by (simp add: findTraceParent_def walk_None_iff)

lemma findTraceParent_Some:
  "findTraceParent root c = Some p \<Longrightarrow>
     \<exists>n. nodeAt root p = Some n \<and> Span (ID (span n)) = Parent (ID (span c))"
  by (simp add: findTraceParent_def walk_nodeAt)

lemma appendSub_here: "appendSub (MkTrace s subs) [] child = MkTrace s (subs @ [child])"
  by simp

text \<open>
  Appending a child at a node adds the identifiers, the span records and the links of
  the child, and the link from that node to the child.
\<close>

lemma appendSub_ids:
  "nodeAt t p = Some n \<Longrightarrow> ids (appendSub t p x) = ids t \<union> ids x"
  "nodeAt_sub subs k p = Some n \<Longrightarrow>
     (\<Union>t\<in>set (appendSub_at subs k p x). ids t) = (\<Union>t\<in>set subs. ids t) \<union> ids x"
proof (induction t p x and subs k p x rule: appendSub_appendSub_at.induct)
  case (1 s subs child)
  then show ?case by (auto simp only: appendSub_here) auto
next
  case (2 s subs i t child)
  then show ?case by auto
next
  case (3 i t child)
  then show ?case by simp
next
  case (4 sub subs t child)
  then show ?case by auto
next
  case (5 sub subs i t child)
  then show ?case by auto
qed





subsection \<open>One pass over the children\<close>

lemma addFn_loop_append:
  "addFn_loop (length xs) root (xs @ ys) =
     (case addFn_loop (length xs) root xs of (r, rem) \<Rightarrow> (r, rem @ ys))"
proof (induction xs arbitrary: root ys rule: rev_induct)
  case Nil
  then show ?case by simp
next
  case (snoc x xs)
  show ?case
  proof (cases "findTraceParent root x")
    case None
    have "addFn_loop (length (xs @ [x])) root ((xs @ [x]) @ ys) =
        addFn_loop (length xs) root (xs @ (x # ys))"
      using None by (simp add: nth_append)
    also have "\<dots> = (case addFn_loop (length xs) root xs of (r, rem) \<Rightarrow> (r, rem @ x # ys))"
      by (rule snoc.IH)
    finally have l: "addFn_loop (length (xs @ [x])) root ((xs @ [x]) @ ys) =
        (case addFn_loop (length xs) root xs of (r, rem) \<Rightarrow> (r, rem @ x # ys))" .
    have "addFn_loop (length (xs @ [x])) root (xs @ [x]) =
        addFn_loop (length xs) root (xs @ [x])"
      using None by (simp add: nth_append)
    also have "\<dots> = (case addFn_loop (length xs) root xs of (r, rem) \<Rightarrow> (r, rem @ [x]))"
      by (rule snoc.IH)
    finally show ?thesis
      using l by (simp split: prod.splits)
  next
    case (Some t)
    have "addFn_loop (length (xs @ [x])) root ((xs @ [x]) @ ys) =
        addFn_loop (length xs) (appendSub root t x) (xs @ ys)"
      using Some by (simp add: nth_append)
    also have "\<dots> = (case addFn_loop (length xs) (appendSub root t x) xs of
        (r, rem) \<Rightarrow> (r, rem @ ys))"
      by (rule snoc.IH)
    finally have l: "addFn_loop (length (xs @ [x])) root ((xs @ [x]) @ ys) =
        (case addFn_loop (length xs) (appendSub root t x) xs of (r, rem) \<Rightarrow> (r, rem @ ys))" .
    have "addFn_loop (length (xs @ [x])) root (xs @ [x]) =
        addFn_loop (length xs) (appendSub root t x) (xs @ [])"
      using Some by (simp add: nth_append)
    then show ?thesis
      using l by simp
  qed
qed

lemma addFn_Nil: "addFn root [] = (root, [])"
  by (simp add: addFn_def)

text \<open>
  A pass starts with the last child: either it is attached and the pass goes on over
  the others, or it stays where it is behind what remains of the others.
\<close>

lemma addFn_snoc:
  "addFn root (xs @ [x]) =
     (case findTraceParent root x of
        Some t \<Rightarrow> addFn (appendSub root t x) xs
      | None \<Rightarrow> (case addFn root xs of (r, rem) \<Rightarrow> (r, rem @ [x])))"
proof (cases "findTraceParent root x")
  case None
  have "addFn root (xs @ [x]) = addFn_loop (length xs) root (xs @ [x])"
    using None by (simp add: addFn_def nth_append)
  also have "\<dots> = (case addFn_loop (length xs) root xs of (r, rem) \<Rightarrow> (r, rem @ [x]))"
    by (rule addFn_loop_append)
  finally show ?thesis
    using None by (simp add: addFn_def)
next
  case (Some t)
  have "addFn root (xs @ [x]) = addFn_loop (length xs) (appendSub root t x) (xs @ [])"
    using Some by (simp add: addFn_def nth_append)
  then show ?thesis
    using Some by (simp add: addFn_def)
qed

lemma reach_mono_children:
  assumes "set cs \<subseteq> set cs'"
  shows "reach root cs \<subseteq> reach root cs'"
proof
  fix i
  assume "i \<in> reach root cs"
  then show "i \<in> reach root cs'"
  proof (induction rule: reach.induct)
    case (in_root i)
    then show ?case by (rule reach.in_root)
  next
    case (in_child c i)
    with assms show ?case by (auto intro: reach.in_child)
  qed
qed



lemma reach_attach:
  assumes ids: "ids root' = ids root \<union> ids x"
    and par: "Parent (ID (span x)) \<in> ids root"
  shows "reach root' xs \<subseteq> reach root (xs @ [x])"
proof
  fix i
  assume "i \<in> reach root' xs"
  then show "i \<in> reach root (xs @ [x])"
  proof (induction rule: reach.induct)
    case (in_root i)
    show ?case
    proof (cases "i \<in> ids root")
      case True
      then show ?thesis by (rule reach.in_root)
    next
      case False
      with in_root ids have i: "i \<in> ids x" by simp
      have "Parent (ID (span x)) \<in> reach root (xs @ [x])"
        using par by (rule reach.in_root)
      with i show ?thesis
        by (auto intro: reach.in_child [of x])
    qed
  next
    case (in_child c i)
    then show ?case by (auto intro: reach.in_child [of c])
  qed
qed


text \<open>
  What one pass does: the children are split into those that remain and those that
  were attached; the tree has gained the identifiers of the attached ones, whose
  parents are in it; no remaining child has its parent in the tree the pass started
  with; and every identifier of the tree can be reached from the root it started with.
\<close>

lemma addFn_pass:
  "addFn root cs = (r, rem) \<Longrightarrow>
     \<exists>att. mset cs = mset rem + mset att \<and>
       ids r = ids root \<union> (\<Union>a\<in>set att. ids a) \<and>
       (\<forall>a\<in>set att. Parent (ID (span a)) \<in> ids r) \<and>
       (\<forall>c\<in>set rem. Parent (ID (span c)) \<notin> ids root) \<and>
       ids r \<subseteq> reach root cs"
proof (induction cs arbitrary: root r rem rule: rev_induct)
  case Nil
  then have "r = root" "rem = []"
    by (simp_all add: addFn_Nil)
  then have "mset [] = mset rem + mset [] \<and>
       ids r = ids root \<union> (\<Union>a\<in>set []. ids a) \<and>
       (\<forall>a\<in>set []. Parent (ID (span a)) \<in> ids r) \<and>
       (\<forall>c\<in>set rem. Parent (ID (span c)) \<notin> ids root) \<and>
       ids r \<subseteq> reach root []"
    by (auto intro: reach.in_root)
  then show ?case by blast
next
  case (snoc x xs)
  show ?case
  proof (cases "findTraceParent root x")
    case None
    then obtain rem' where a: "addFn root xs = (r, rem')" and rem: "rem = rem' @ [x]"
      using snoc.prems by (auto simp: addFn_snoc split: prod.splits)
    from snoc.IH [OF a] obtain att where
      h: "mset xs = mset rem' + mset att"
         "ids r = ids root \<union> (\<Union>a\<in>set att. ids a)"
         "\<forall>a\<in>set att. Parent (ID (span a)) \<in> ids r"
         "\<forall>c\<in>set rem'. Parent (ID (span c)) \<notin> ids root"
         "ids r \<subseteq> reach root xs" by blast
    have "Parent (ID (span x)) \<notin> ids root"
      using None by (simp add: findTraceParent_None_iff)
    moreover have "reach root xs \<subseteq> reach root (xs @ [x])"
      by (rule reach_mono_children) auto
    ultimately have "mset (xs @ [x]) = mset rem + mset att \<and>
       ids r = ids root \<union> (\<Union>a\<in>set att. ids a) \<and>
       (\<forall>a\<in>set att. Parent (ID (span a)) \<in> ids r) \<and>
       (\<forall>c\<in>set rem. Parent (ID (span c)) \<notin> ids root) \<and>
       ids r \<subseteq> reach root (xs @ [x])"
      using h rem by auto
    then show ?thesis by blast
  next
    case (Some t)
    then have a: "addFn (appendSub root t x) xs = (r, rem)"
      using snoc.prems by (simp add: addFn_snoc)
    from findTraceParent_Some [OF Some] obtain n where
      n: "nodeAt root t = Some n" "Span (ID (span n)) = Parent (ID (span x))" by blast
    have par: "Parent (ID (span x)) \<in> ids root"
      using Some findTraceParent_None_iff [of root x] by auto
    have i: "ids (appendSub root t x) = ids root \<union> ids x"
      using n(1) by (rule appendSub_ids)
    from snoc.IH [OF a] obtain att where
      h: "mset xs = mset rem + mset att"
         "ids r = ids (appendSub root t x) \<union> (\<Union>a\<in>set att. ids a)"
         "\<forall>a\<in>set att. Parent (ID (span a)) \<in> ids r"
         "\<forall>c\<in>set rem. Parent (ID (span c)) \<notin> ids (appendSub root t x)"
         "ids r \<subseteq> reach (appendSub root t x) xs" by blast
    have "reach (appendSub root t x) xs \<subseteq> reach root (xs @ [x])"
      using i par by (rule reach_attach)
    with h i par have "mset (xs @ [x]) = mset rem + mset (x # att) \<and>
       ids r = ids root \<union> (\<Union>a\<in>set (x # att). ids a) \<and>
       (\<forall>a\<in>set (x # att). Parent (ID (span a)) \<in> ids r) \<and>
       (\<forall>c\<in>set rem. Parent (ID (span c)) \<notin> ids root) \<and>
       ids r \<subseteq> reach root (xs @ [x])"
      by auto
    then show ?thesis by blast
  qed
qed

lemma addFn_reach:
  assumes "addFn root cs = (r, rem)"
  shows "reach r rem = reach root cs"
proof -
  from addFn_pass [OF assms] obtain att where
    h: "mset cs = mset rem + mset att"
       "ids r = ids root \<union> (\<Union>a\<in>set att. ids a)"
       "\<forall>a\<in>set att. Parent (ID (span a)) \<in> ids r"
       "\<forall>c\<in>set rem. Parent (ID (span c)) \<notin> ids root"
       "ids r \<subseteq> reach root cs" by blast
  from h(1) have sets: "set cs = set rem \<union> set att"
    by (metis set_mset_mset set_mset_union)
  have "i \<in> reach root cs" if "i \<in> reach r rem" for i
    using that
  proof (induction rule: reach.induct)
    case (in_root i)
    with h(5) show ?case by blast
  next
    case (in_child c i)
    with sets show ?case by (auto intro: reach.in_child [of c])
  qed
  moreover have "i \<in> reach r rem" if "i \<in> reach root cs" for i
    using that
  proof (induction rule: reach.induct)
    case (in_root i)
    with h(2) show ?case by (auto intro: reach.in_root)
  next
    case (in_child c i)
    show ?case
    proof (cases "c \<in> set rem")
      case True
      with in_child show ?thesis by (auto intro: reach.in_child [of c])
    next
      case False
      with in_child(1) sets have "c \<in> set att" by blast
      with in_child(3) h(2) have "i \<in> ids r" by blast
      then show ?thesis by (rule reach.in_root)
    qed
  qed
  ultimately show ?thesis by blast
qed

lemma addFn_attachable:
  assumes "addFn root cs = (r, rem)"
  shows "attachable r rem = attachable root cs"
proof -
  from addFn_pass [OF assms] obtain att where
    h: "mset cs = mset rem + mset att"
       "\<forall>a\<in>set att. Parent (ID (span a)) \<in> ids r" by blast
  from h(1) have sets: "set cs = set rem \<union> set att"
    by (metis set_mset_mset set_mset_union)
  have e: "reach r rem = reach root cs"
    using assms by (rule addFn_reach)
  have "Parent (ID (span a)) \<in> reach r rem" if "a \<in> set att" for a
    using that h(2) by (auto intro: reach.in_root)
  with sets e show ?thesis
    unfolding attachable_def by auto
qed

lemma attachable_some_child_of_root:
  assumes "attachable root cs" and "cs \<noteq> []"
  shows "\<exists>c\<in>set cs. Parent (ID (span c)) \<in> ids root"
proof (rule ccontr)
  assume no: "\<not> (\<exists>c\<in>set cs. Parent (ID (span c)) \<in> ids root)"
  have "i \<in> ids root" if "i \<in> reach root cs" for i
    using that
  proof (induction rule: reach.induct)
    case (in_root i)
    then show ?case .
  next
    case (in_child c i)
    with no show ?case by blast
  qed
  moreover from assms(2) obtain c where "c \<in> set cs"
    by (cases cs) auto
  ultimately show False
    using assms(1) no unfolding attachable_def by blast
qed

lemma not_attachable_without_child_of_root:
  assumes "cs \<noteq> []" and "\<forall>c\<in>set cs. Parent (ID (span c)) \<notin> ids root"
  shows "\<not> attachable root cs"
  using attachable_some_child_of_root [of root cs] assms by blast



subsection \<open>The retries\<close>



lemma addChildren_loop_fails:
  "\<not> attachable root cs \<Longrightarrow> addChildren_loop root cs n retries = Inl errMaxRetries"
proof (induction root cs n retries rule: addChildren_loop.induct)
  case (1 root children n retries)
  from "1.prems" have False: "children \<noteq> []"
    by (auto simp: attachable_def)
  show ?case
  proof (cases "n = retries")
    case True
    with False show ?thesis by simp
  next
    case ne: False
    obtain r rem where a: "addFn root children = (r, rem)"
      by (cases "addFn root children")
    have att: "\<not> attachable r rem"
      using addFn_attachable [OF a] "1.prems" by simp
    have "addChildren_loop r rem (n + 1) retries = Inl errMaxRetries"
      using False ne a att by (intro "1.IH") simp_all
    then show ?thesis
      using False ne a by (subst addChildren_loop.simps) simp
  qed
qed


lemma addChildren_fails:
  assumes "\<not> attachable root cs"
  shows "addChildren root cs = Inl errMaxRetries"
  unfolding addChildren_def using assms by (rule addChildren_loop_fails)













section \<open>Reading traces\<close>

text \<open>
  The loop of \<^verbatim>\<open>Trace\<close> over rows that all decode: an error as soon as a second
  root span is met, otherwise the first root span in the trace and all other spans, in
  their order, among the children.
\<close>

lemma Trace_loop_decoded:
  assumes "map decode series = map Inr spans"
  shows "Trace_loop decode series trace rootSpanSet children =
     (let roots = filter (\<lambda>sp. IsRoot (ID sp)) spans in
      if (if rootSpanSet then 1 else 0) + length roots > (1 :: nat)
      then Inl (Error ''unexpected multiple root spans'')
      else Inr (case roots of [] \<Rightarrow> trace | r # rs \<Rightarrow> MkTrace r (Sub trace),
                rootSpanSet \<or> roots \<noteq> [],
                children @ map (\<lambda>sp. MkTrace sp []) (filter (\<lambda>sp. \<not> IsRoot (ID sp)) spans)))"
  using assms
proof (induction series arbitrary: spans trace rootSpanSet children)
  case Nil
  then show ?case by simp
next
  case (Cons s series)
  then obtain sp spans' where
    sp: "spans = sp # spans'" "decode s = Inr sp" "map decode series = map Inr spans'"
    by (cases spans) auto
  show ?case
  proof (cases "IsRoot (ID sp)")
    case True
    show ?thesis
    proof (cases rootSpanSet)
      case True
      with \<open>IsRoot (ID sp)\<close> sp show ?thesis by simp
    next
      case False
      with \<open>IsRoot (ID sp)\<close> sp Cons.IH [OF sp(3), of "MkTrace sp (Sub trace)" True children]
      show ?thesis
        by (simp add: Let_def split: list.splits)
    qed
  next
    case False
    with sp Cons.IH [OF sp(3), of trace rootSpanSet "children @ [MkTrace sp []]"]
    show ?thesis
      by (simp add: Let_def)
  qed
qed

text \<open>
  Claim C4, as amended. When the query gives at least one row and every row decodes:
  with no root span among them the call fails with the error of the exceeded retries
  (no child can be attached under the zero-valued root), with more than one it fails
  with the error of multiple root spans, with exactly one the result is that of
  attaching the other spans under the root; so a trace is returned only when there is
  exactly one root span.
\<close>

theorem Trace_root_partition:
  assumes "series \<noteq> []"
    and "map (newSpanFromRow schemaPrefix ParseID annotationsFromEvents) series = map Inr spans"
  shows "(length (filter (\<lambda>sp. IsRoot (ID sp)) spans) = 0 \<longrightarrow>
            InfluxDBStore_Trace schemaPrefix ParseID annotationsFromEvents (Inr series) =
              Inl errMaxRetries) \<and>
         (length (filter (\<lambda>sp. IsRoot (ID sp)) spans) > 1 \<longrightarrow>
            InfluxDBStore_Trace schemaPrefix ParseID annotationsFromEvents (Inr series) =
              Inl (Error ''unexpected multiple root spans'')) \<and>
         (length (filter (\<lambda>sp. IsRoot (ID sp)) spans) = 1 \<longrightarrow>
            InfluxDBStore_Trace schemaPrefix ParseID annotationsFromEvents (Inr series) =
              addChildren (MkTrace (hd (filter (\<lambda>sp. IsRoot (ID sp)) spans)) [])
                (map (\<lambda>sp. MkTrace sp []) (filter (\<lambda>sp. \<not> IsRoot (ID sp)) spans))) \<and>
         ((\<exists>t. InfluxDBStore_Trace schemaPrefix ParseID annotationsFromEvents (Inr series) =
                 Inr t) \<longrightarrow>
            length (filter (\<lambda>sp. IsRoot (ID sp)) spans) = 1)"
proof -
  let ?decode = "newSpanFromRow schemaPrefix ParseID annotationsFromEvents"
  let ?roots = "filter (\<lambda>sp. IsRoot (ID sp)) spans"
  let ?rest = "map (\<lambda>sp. MkTrace sp []) (filter (\<lambda>sp. \<not> IsRoot (ID sp)) spans)"
  let ?zero = "MkTrace \<lparr>ID = \<lparr>Trace = 0, Span = 0, Parent = 0\<rparr>, Annotations = []\<rparr> []"
  let ?T = "InfluxDBStore_Trace schemaPrefix ParseID annotationsFromEvents (Inr series)"
  have loop: "Trace_loop ?decode series ?zero False [] =
     (if length ?roots > 1 then Inl (Error ''unexpected multiple root spans'')
      else Inr (case ?roots of [] \<Rightarrow> ?zero | r # rs \<Rightarrow> MkTrace r [], ?roots \<noteq> [], ?rest))"
    using Trace_loop_decoded [OF assms(2), of ?zero False "[]"]
    by (auto simp: Let_def split: list.splits)
  from assms have spans_ne: "spans \<noteq> []"
    by (cases series; cases spans) auto
  have many: "?T = Inl (Error ''unexpected multiple root spans'')" if "length ?roots > 1"
    using that assms(1) loop by (simp add: InfluxDBStore_Trace_def)
  have one: "?T = addChildren (MkTrace (hd ?roots) []) ?rest" if "length ?roots = 1"
  proof -
    from that obtain r where r: "?roots = [r]"
      by (cases ?roots) auto
    with assms(1) loop show ?thesis
      by (simp add: InfluxDBStore_Trace_def split: sum.splits)
  qed
  have none: "?T = Inl errMaxRetries" if "length ?roots = 0"
  proof -
    from that have r: "?roots = []" by simp
    then have all: "filter (\<lambda>sp. \<not> IsRoot (ID sp)) spans = spans"
      by (simp add: filter_empty_conv)
    have "?rest \<noteq> []"
      using all spans_ne by simp
    moreover have "\<forall>c\<in>set ?rest. Parent (ID (span c)) \<notin> ids ?zero"
      by (auto simp: IsRoot_def)
    ultimately have "\<not> attachable ?zero ?rest"
      by (rule not_attachable_without_child_of_root)
    then have "addChildren ?zero ?rest = Inl errMaxRetries"
      by (rule addChildren_fails)
    with assms(1) loop r show ?thesis
      by (simp add: InfluxDBStore_Trace_def)
  qed
  have ok: "length ?roots = 1" if "\<exists>t. ?T = Inr t"
  proof (rule ccontr)
    assume "length ?roots \<noteq> 1"
    then have "length ?roots = 0 \<or> length ?roots > 1" by linarith
    with none many that show False
      by (auto simp: errMaxRetries_def)
  qed
  from none many one ok show ?thesis by blast
qed

theorem Trace_root_partition_witness:
  "InfluxDBStore_Trace ''_schema:''
     (\<lambda>s. if s = ''0000000000000000'' then Inr 0
          else if s = ''0000000000000001'' then Inr 1
          else if s = ''0000000000000002'' then Inr 2
          else Inl (Error ''invalid ID''))
     Inr
     (Inr [\<lparr>RowTags = [''trace_id'' \<mapsto> ''0000000000000001'',
                        ''span_id'' \<mapsto> ''0000000000000001'',
                        ''parent_id'' \<mapsto> ''0000000000000000''],
            Columns = [''schemas''], Values = [[IString '''']]\<rparr>,
           \<lparr>RowTags = [''trace_id'' \<mapsto> ''0000000000000001'',
                        ''span_id'' \<mapsto> ''0000000000000002'',
                        ''parent_id'' \<mapsto> ''0000000000000000''],
            Columns = [''schemas''], Values = [[IString '''']]\<rparr>]) =
   Inl (Error ''unexpected multiple root spans'') \<and>
   InfluxDBStore_Trace ''_schema:''
     (\<lambda>s. if s = ''0000000000000000'' then Inr 0
          else if s = ''0000000000000001'' then Inr 1
          else if s = ''0000000000000002'' then Inr 2
          else Inl (Error ''invalid ID''))
     Inr
     (Inr [\<lparr>RowTags = [''trace_id'' \<mapsto> ''0000000000000001'',
                        ''span_id'' \<mapsto> ''0000000000000002'',
                        ''parent_id'' \<mapsto> ''0000000000000001''],
            Columns = [''schemas''], Values = [[IString '''']]\<rparr>]) =
   Inl errMaxRetries \<and>
   InfluxDBStore_Trace ''_schema:''
     (\<lambda>s. if s = ''0000000000000000'' then Inr 0
          else if s = ''0000000000000001'' then Inr 1
          else if s = ''0000000000000002'' then Inr 2
          else Inl (Error ''invalid ID''))
     Inr
     (Inr [\<lparr>RowTags = [''trace_id'' \<mapsto> ''0000000000000001'',
                        ''span_id'' \<mapsto> ''0000000000000002'',
                        ''parent_id'' \<mapsto> ''0000000000000001''],
            Columns = [''schemas''], Values = [[IString '''']]\<rparr>,
           \<lparr>RowTags = [''trace_id'' \<mapsto> ''0000000000000001'',
                        ''span_id'' \<mapsto> ''0000000000000001'',
                        ''parent_id'' \<mapsto> ''0000000000000000''],
            Columns = [''schemas''], Values = [[IString '''']]\<rparr>]) =
   Inr (MkTrace \<lparr>ID = \<lparr>Trace = 1, Span = 1, Parent = 0\<rparr>,
                 Annotations = [\<lparr>Key = ''schemas'', Value = ''''\<rparr>]\<rparr>
          [MkTrace \<lparr>ID = \<lparr>Trace = 1, Span = 2, Parent = 1\<rparr>,
                     Annotations = [\<lparr>Key = ''schemas'', Value = ''''\<rparr>]\<rparr> []])"
proof -
  let ?ParseID = "\<lambda>s. if s = ''0000000000000000'' then Inr (0 :: ID)
          else if s = ''0000000000000001'' then Inr 1
          else if s = ''0000000000000002'' then Inr 2
          else Inl (Error ''invalid ID'')"
  let ?row = "\<lambda>s p. \<lparr>RowTags = [''trace_id'' \<mapsto> ''0000000000000001'',
                        ''span_id'' \<mapsto> s, ''parent_id'' \<mapsto> p],
            Columns = [''schemas''], Values = [[IString '''']]\<rparr>"
  let ?span = "\<lambda>s p. \<lparr>ID = \<lparr>Trace = 1, Span = s, Parent = p\<rparr>,
      Annotations = [\<lparr>Key = ''schemas'', Value = ''''\<rparr>]\<rparr>"
  have d1: "newSpanFromRow ''_schema:'' ?ParseID Inr
      (?row ''0000000000000001'' ''0000000000000000'') = Inr (?span 1 0)"
    by (simp add: newSpanFromRow_def tag_def annotationsFromRow_def filterSchemas_def
        schemasFieldName_def HasPrefix_def)
  have d2: "newSpanFromRow ''_schema:'' ?ParseID Inr
      (?row ''0000000000000002'' ''0000000000000000'') = Inr (?span 2 0)"
    by (simp add: newSpanFromRow_def tag_def annotationsFromRow_def filterSchemas_def
        schemasFieldName_def HasPrefix_def)
  have d3: "newSpanFromRow ''_schema:'' ?ParseID Inr
      (?row ''0000000000000002'' ''0000000000000001'') = Inr (?span 2 1)"
    by (simp add: newSpanFromRow_def tag_def annotationsFromRow_def filterSchemas_def
        schemasFieldName_def HasPrefix_def)
  have two: "map (newSpanFromRow ''_schema:'' ?ParseID Inr)
      [?row ''0000000000000001'' ''0000000000000000'',
       ?row ''0000000000000002'' ''0000000000000000''] = map Inr [?span 1 0, ?span 2 0]"
    using d1 d2 by simp
  have none: "map (newSpanFromRow ''_schema:'' ?ParseID Inr)
      [?row ''0000000000000002'' ''0000000000000001''] = map Inr [?span 2 1]"
    using d3 by simp
  have one: "map (newSpanFromRow ''_schema:'' ?ParseID Inr)
      [?row ''0000000000000002'' ''0000000000000001'',
       ?row ''0000000000000001'' ''0000000000000000''] = map Inr [?span 2 1, ?span 1 0]"
    using d1 d3 by simp
  have ne2: "[?row ''0000000000000001'' ''0000000000000000'',
       ?row ''0000000000000002'' ''0000000000000000''] \<noteq> []" by simp
  have ne1: "[?row ''0000000000000002'' ''0000000000000001''] \<noteq> []" by simp
  have ne3: "[?row ''0000000000000002'' ''0000000000000001'',
       ?row ''0000000000000001'' ''0000000000000000''] \<noteq> []" by simp
  have attach: "addChildren (MkTrace (?span 1 0) []) [MkTrace (?span 2 1) []] =
      Inr (MkTrace (?span 1 0) [MkTrace (?span 2 1) []])"
    by (simp add: addChildren_def addFn_def findTraceParent_def)
  from Trace_root_partition [OF ne2 two] Trace_root_partition [OF ne1 none]
    Trace_root_partition [OF ne3 one] attach
  show ?thesis
    by (simp add: IsRoot_def)
qed

text \<open>
  Claim C4 as stated fails: for one row that is not a root span the error is that of
  the exceeded retries, not the one of a trace that was not found.
\<close>

theorem Trace_no_root_counterexample:
  "InfluxDBStore_Trace ''_schema:''
     (\<lambda>s. if s = ''0000000000000000'' then Inr 0
          else if s = ''0000000000000001'' then Inr 1
          else if s = ''0000000000000002'' then Inr 2
          else Inl (Error ''invalid ID''))
     Inr
     (Inr [\<lparr>RowTags = [''trace_id'' \<mapsto> ''0000000000000001'',
                        ''span_id'' \<mapsto> ''0000000000000002'',
                        ''parent_id'' \<mapsto> ''0000000000000001''],
            Columns = [''schemas''], Values = [[IString '''']]\<rparr>]) =
   Inl (Error ''maximum number of retries'') \<and>
   Error ''maximum number of retries'' \<noteq> Error ''trace not found''"
  by (simp add: InfluxDBStore_Trace_def newSpanFromRow_def tag_def annotationsFromRow_def
      filterSchemas_def schemasFieldName_def HasPrefix_def IsRoot_def addChildren_def
      addFn_def findTraceParent_def errMaxRetries_def)

text \<open>
  Claim C10. When the query for the root spans gives no series, \<^verbatim>\<open>Traces\<close> returns
  the empty slice that it made (not nil) and a nil error, whatever the second query
  would give.
\<close>

theorem Traces_no_roots_empty_page:
  "InfluxDBStore_Traces schemaPrefix ParseID annotationsFromEvents rangeCache (Inr [])
     childrenSpansResult = (Some [], None)"
  by (simp add: InfluxDBStore_Traces_def)

theorem Traces_no_roots_empty_page_witness:
  "InfluxDBStore_Traces ''_schema:'' (\<lambda>s. Inl (Error ''invalid ID'')) Inr rev (Inr [])
     (Inl (Error ''query failed'')) = (Some [], None)"
  by (rule Traces_no_roots_empty_page)

end
